theory Spec2Isabelle
  imports Main
begin

section \<open>Text: Go strings as byte lists\<close>

text \<open>
  A Go string is a sequence of bytes; \<^typ>\<open>string\<close> is a list of 8-bit characters, so the
  two coincide. The bytes below 128 are the ASCII characters; a code point beyond ASCII
  is several bytes of UTF-8, each of them 128 or more.
\<close>

definition byte :: "char \<Rightarrow> nat" where
  "byte c = of_char c"

definition ascii :: "string \<Rightarrow> bool" where
  "ascii s = list_all (\<lambda>c. byte c < 128) s"

definition isLower :: "char \<Rightarrow> bool" where
  "isLower c = (97 \<le> byte c \<and> byte c \<le> 122)"

definition isDigit :: "char \<Rightarrow> bool" where
  "isDigit c = (48 \<le> byte c \<and> byte c \<le> 57)"

subsection \<open>The verb \<open>%d\<close> of \<open>fmt.Printf\<close>\<close>

text \<open>
  \<open>%d\<close> writes an integer in base ten, most significant digit first, with a minus sign
  in front of a negative one and no padding.
\<close>

fun digits :: "nat \<Rightarrow> string" where
  "digits n = (if n < 10 then [char_of (48 + n)] else digits (n div 10) @ [char_of (48 + n mod 10)])"

declare digits.simps [simp del]

definition fmt_d :: "int \<Rightarrow> string" where
  "fmt_d i = (if i < 0 then CHR ''-'' # digits (nat (- i)) else digits (nat i))"

subsection \<open>Runes: UTF-8\<close>

text \<open>
  A \<open>range\<close> loop over a string reads it rune by rune. \<open>DecodeRune\<close> gives the rune at
  the head of the bytes and its width: an ASCII byte stands for itself; a lead byte
  \<open>C2\<close> to \<open>DF\<close>, \<open>E0\<close> to \<open>EF\<close> or \<open>F0\<close> to \<open>F4\<close> takes one, two or three
  continuation bytes \<open>80\<close> to \<open>BF\<close>, the first of them in a narrower range after
  \<open>E0\<close>, \<open>ED\<close>, \<open>F0\<close> and \<open>F4\<close> (no overlong form, no surrogate, nothing above
  \<open>10FFFF\<close>); anything else is the rune \<open>RuneError\<close> of width one. \<open>EncodeRune\<close>
  writes a rune in one to four bytes, and \<open>RuneError\<close> for a surrogate or a value above
  \<open>10FFFF\<close>. A rune is a natural number.
\<close>

definition RuneError :: nat where
  "RuneError = 0xFFFD"

definition continuation :: "char \<Rightarrow> bool" where
  "continuation c = (0x80 \<le> byte c \<and> byte c \<le> 0xBF)"

definition DecodeRune :: "string \<Rightarrow> nat \<times> nat" where
  "DecodeRune s =
     (case s of
        [] \<Rightarrow> (RuneError, 0)
      | s0 # t \<Rightarrow>
          if byte s0 < 0x80 then (byte s0, 1)
          else if 0xC2 \<le> byte s0 \<and> byte s0 \<le> 0xDF then
            (case t of
               s1 # _ \<Rightarrow>
                 if continuation s1 then ((byte s0 - 0xC0) * 64 + (byte s1 - 0x80), 2)
                 else (RuneError, 1)
             | _ \<Rightarrow> (RuneError, 1))
          else if 0xE0 \<le> byte s0 \<and> byte s0 \<le> 0xEF then
            (case t of
               s1 # s2 # _ \<Rightarrow>
                 if (if byte s0 = 0xE0 then 0xA0 else 0x80) \<le> byte s1 \<and>
                    byte s1 \<le> (if byte s0 = 0xED then 0x9F else 0xBF) \<and> continuation s2
                 then (((byte s0 - 0xE0) * 64 + (byte s1 - 0x80)) * 64 + (byte s2 - 0x80), 3)
                 else (RuneError, 1)
             | _ \<Rightarrow> (RuneError, 1))
          else if 0xF0 \<le> byte s0 \<and> byte s0 \<le> 0xF4 then
            (case t of
               s1 # s2 # s3 # _ \<Rightarrow>
                 if (if byte s0 = 0xF0 then 0x90 else 0x80) \<le> byte s1 \<and>
                    byte s1 \<le> (if byte s0 = 0xF4 then 0x8F else 0xBF) \<and>
                    continuation s2 \<and> continuation s3
                 then ((((byte s0 - 0xF0) * 64 + (byte s1 - 0x80)) * 64 + (byte s2 - 0x80)) * 64 +
                       (byte s3 - 0x80), 4)
                 else (RuneError, 1)
             | _ \<Rightarrow> (RuneError, 1))
          else (RuneError, 1))"

fun runes :: "string \<Rightarrow> nat list" where
  "runes [] = []"
| "runes (s0 # t) = fst (DecodeRune (s0 # t)) # runes (drop (snd (DecodeRune (s0 # t)) - 1) t)"

definition EncodeRune :: "nat \<Rightarrow> string" where
  "EncodeRune r =
     (if r \<le> 0x7F then [char_of r]
      else if r \<le> 0x7FF then [char_of (0xC0 + r div 64), char_of (0x80 + r mod 64)]
      else if 0x10FFFF < r \<or> (0xD800 \<le> r \<and> r \<le> 0xDFFF) then [CHR 0xEF, CHR 0xBF, CHR 0xBD]
      else if r \<le> 0xFFFF then
        [char_of (0xE0 + r div 4096), char_of (0x80 + r div 64 mod 64), char_of (0x80 + r mod 64)]
      else
        [char_of (0xF0 + r div 262144), char_of (0x80 + r div 4096 mod 64),
         char_of (0x80 + r div 64 mod 64), char_of (0x80 + r mod 64)])"

subsection \<open>\<open>strings.Title\<close>\<close>

text \<open>
  The tables of package \<open>unicode\<close> are not part of the program: they are a parameter,
  read only for runes beyond ASCII. \<open>To_TitleCase\<close> is the title case mapping of the
  case tables.
\<close>

record unicode =
  IsLetter :: "nat \<Rightarrow> bool"
  IsDigit :: "nat \<Rightarrow> bool"
  IsSpace :: "nat \<Rightarrow> bool"
  To_TitleCase :: "nat \<Rightarrow> nat"

text \<open>
  \<open>isSeparator\<close> of package \<open>strings\<close>: up to \<open>0x7F\<close>, the ASCII letters, the digits
  and the underscore are no separators and every other rune is one; beyond, a letter or a
  digit is no separator and any other rune is one exactly when it is a space.
  \<open>unicode.ToTitle\<close> turns a lower-case ASCII letter into the upper-case one, keeps the
  other ASCII runes, and reads the case tables beyond ASCII.
\<close>

definition isSeparator :: "unicode \<Rightarrow> nat \<Rightarrow> bool" where
  "isSeparator U r =
     (if r \<le> 0x7F then
        (if 48 \<le> r \<and> r \<le> 57 then False
         else if 97 \<le> r \<and> r \<le> 122 then False
         else if 65 \<le> r \<and> r \<le> 90 then False
         else if r = 95 then False
         else True)
      else if IsLetter U r \<or> IsDigit U r then False
      else IsSpace U r)"

definition ToTitle :: "unicode \<Rightarrow> nat \<Rightarrow> nat" where
  "ToTitle U r =
     (if r \<le> 0x7F then (if 97 \<le> r \<and> r \<le> 122 then r - 32 else r)
      else To_TitleCase U r)"

text \<open>
  \<open>strings.Title\<close> maps over the runes of its argument with \<open>strings.Map\<close> and
  remembers the previous rune, starting from a space: a rune that follows a separator is
  replaced by its title case, every other rune is kept. \<open>strings.Map\<close> calls the mapping
  once for each rune in order and writes the runes it returns in UTF-8; an invalid byte
  is read, and written, as \<open>RuneError\<close>.
\<close>

fun Title_from :: "unicode \<Rightarrow> nat \<Rightarrow> nat list \<Rightarrow> nat list" where
  "Title_from U prev [] = []"
| "Title_from U prev (r # rs) =
     (if isSeparator U prev then ToTitle U r else r) # Title_from U r rs"

definition strings_Title :: "unicode \<Rightarrow> string \<Rightarrow> string" where
  "strings_Title U s = concat (map EncodeRune (Title_from U 32 (runes s)))"

section \<open>The response body as \<open>encoding/json\<close> reads it\<close>

text \<open>
  \<open>json.Unmarshal\<close> first scans the bytes: text that is not one JSON value is refused
  with a syntax error before anything is stored. The model starts after the scanner: a
  body is either refused, with the scanner's message, or it is the JSON value it denotes.
  An object keeps its members in the order of the text, with repeated keys, because the
  decoder visits them one by one. A number \<open>JNumber m e\<close> stands for \<open>m * 10 ^ e\<close>; a
  string holds its bytes after unquoting.
\<close>

datatype json =
    JNull
  | JBool bool
  | JNumber int int
  | JString string
  | JArray "json list"
  | JObject "(string \<times> json) list"

datatype document = Invalid string | Valid json

text \<open>
  The two errors of \<open>json.Unmarshal\<close>: the scanner's, and the decoder's when a JSON
  value cannot be stored in the Go type it meets (the value and the name of the Go type).
  The decoder records the first such error, finishes the walk and returns that error.
\<close>

datatype json_error = SyntaxError string | UnmarshalTypeError json string

subsection \<open>The Go types of the program\<close>

record Repo =
  Name :: string

record Issue =
  Title :: string

record Forkee =
  FullName :: string

record Payload =
  Action :: string
  RefType :: string
  Commits :: "json list"
  Issue :: Issue
  Forkee :: Forkee
  PullRequest :: Issue

record Event =
  Type :: string
  Repo :: Repo
  Payload :: Payload

text \<open>The zero values the decoder starts from; the nil slice is the empty list.\<close>

definition zero_Repo :: Repo where
  "zero_Repo = \<lparr>Name = []\<rparr>"

definition zero_Issue :: Issue where
  "zero_Issue = \<lparr>Title = []\<rparr>"

definition zero_Forkee :: Forkee where
  "zero_Forkee = \<lparr>FullName = []\<rparr>"

definition zero_Payload :: Payload where
  "zero_Payload =
     \<lparr>Action = [], RefType = [], Commits = [], Issue = zero_Issue, Forkee = zero_Forkee,
      PullRequest = zero_Issue\<rparr>"

definition zero_Event :: Event where
  "zero_Event = \<lparr>Type = [], Repo = zero_Repo, Payload = zero_Payload\<rparr>"

subsection \<open>Matching a key with a struct field\<close>

text \<open>
  A key selects the field whose \<open>json\<close> tag it equals, or else equals under case
  folding. Folding makes ASCII letters upper case and replaces a rune by the least rune
  that folds with it; the only runes beyond ASCII that fold with an ASCII letter are the
  Kelvin sign (bytes \<open>E2 84 AA\<close>, folding with K) and the long s (bytes \<open>C5 BF\<close>,
  folding with S). The tags of this program are ASCII and no two of one struct fold
  together, so a key selects at most one field.
\<close>

definition toUpper :: "char \<Rightarrow> char" where
  "toUpper c = (if isLower c then char_of (byte c - 32) else c)"

fun foldName :: "string \<Rightarrow> string" where
  "foldName [] = []"
| "foldName (c # s) =
     (if c = CHR 0xE2 \<and> take 2 s = [CHR 0x84, CHR 0xAA] then CHR ''K'' # foldName (drop 2 s)
      else if c = CHR 0xC5 \<and> take 1 s = [CHR 0xBF] then CHR ''S'' # foldName (drop 1 s)
      else toUpper c # foldName s)"

definition field :: "string \<Rightarrow> string \<Rightarrow> bool" where
  "field tag key = (key = tag \<or> foldName key = foldName tag)"

subsection \<open>Decoding into \<open>any\<close>\<close>

text \<open>
  Every JSON value can be stored in an empty interface, except a number that does not fit
  a \<open>float64\<close>: \<open>strconv.ParseFloat\<close> reports a range error when the number rounds to
  infinity, that is when its magnitude reaches \<open>2 ^ 1024 - 2 ^ 970\<close>, half a unit in the
  last place above the largest \<open>float64\<close>. The walk goes through arrays and objects in
  the order of the text.
\<close>

definition float64_range :: "int \<Rightarrow> int \<Rightarrow> bool" where
  "float64_range m e =
     (if 0 \<le> e then \<bar>m\<bar> * 10 ^ nat e < 2 ^ 1024 - 2 ^ 970
      else \<bar>m\<bar> < (2 ^ 1024 - 2 ^ 970) * 10 ^ nat (- e))"

primrec interface_error :: "json \<Rightarrow> json_error option"
  and interface_errors :: "json list \<Rightarrow> json_error option"
  and interface_members :: "(string \<times> json) list \<Rightarrow> json_error option"
  and interface_member :: "string \<times> json \<Rightarrow> json_error option"
where
  "interface_error JNull = None"
| "interface_error (JBool b) = None"
| "interface_error (JNumber m e) =
     (if float64_range m e then None else Some (UnmarshalTypeError (JNumber m e) ''float64''))"
| "interface_error (JString s) = None"
| "interface_error (JArray xs) = interface_errors xs"
| "interface_error (JObject kvs) = interface_members kvs"
| "interface_errors [] = None"
| "interface_errors (x # xs) =
     (case interface_error x of Some e \<Rightarrow> Some e | None \<Rightarrow> interface_errors xs)"
| "interface_members [] = None"
| "interface_members (kv # kvs) =
     (case interface_member kv of Some e \<Rightarrow> Some e | None \<Rightarrow> interface_members kvs)"
| "interface_member (k, v) = interface_error v"

subsection \<open>Decoding into the program's types\<close>

text \<open>
  Each decoder takes the JSON value and the Go value already stored, and returns the new
  Go value or the error. \<open>null\<close> leaves a string or a struct as it is and makes a slice
  nil. A string takes a JSON string; a struct takes an object, member by member, a member
  whose key selects no field being skipped; a slice takes an array. Any other JSON value
  is an \<open>UnmarshalTypeError\<close>.
\<close>

definition unmarshal_string :: "json \<Rightarrow> string \<Rightarrow> json_error + string" where
  "unmarshal_string j cur =
     (case j of
        JString s \<Rightarrow> Inr s
      | JNull \<Rightarrow> Inr cur
      | _ \<Rightarrow> Inl (UnmarshalTypeError j ''string''))"

fun members :: "(string \<Rightarrow> json \<Rightarrow> 'a \<Rightarrow> json_error + 'a) \<Rightarrow> (string \<times> json) list \<Rightarrow> 'a \<Rightarrow> json_error + 'a" where
  "members f [] cur = Inr cur"
| "members f ((k, v) # kvs) cur =
     (case f k v cur of Inl e \<Rightarrow> Inl e | Inr cur' \<Rightarrow> members f kvs cur')"

definition unmarshal_struct ::
  "string \<Rightarrow> (string \<Rightarrow> json \<Rightarrow> 'a \<Rightarrow> json_error + 'a) \<Rightarrow> json \<Rightarrow> 'a \<Rightarrow> json_error + 'a" where
  "unmarshal_struct ty f j cur =
     (case j of
        JObject kvs \<Rightarrow> members f kvs cur
      | JNull \<Rightarrow> Inr cur
      | _ \<Rightarrow> Inl (UnmarshalTypeError j ty))"

definition Repo_member :: "string \<Rightarrow> json \<Rightarrow> Repo \<Rightarrow> json_error + Repo" where
  "Repo_member k v r =
     (if field ''name'' k then
        (case unmarshal_string v (Name r) of Inl e \<Rightarrow> Inl e | Inr s \<Rightarrow> Inr (r\<lparr>Name := s\<rparr>))
      else Inr r)"

definition unmarshal_Repo :: "json \<Rightarrow> Repo \<Rightarrow> json_error + Repo" where
  "unmarshal_Repo = unmarshal_struct ''main.Repo'' Repo_member"

definition Issue_member :: "string \<Rightarrow> json \<Rightarrow> Issue \<Rightarrow> json_error + Issue" where
  "Issue_member k v i =
     (if field ''title'' k then
        (case unmarshal_string v (Title i) of Inl e \<Rightarrow> Inl e | Inr s \<Rightarrow> Inr (i\<lparr>Title := s\<rparr>))
      else Inr i)"

definition unmarshal_Issue :: "json \<Rightarrow> Issue \<Rightarrow> json_error + Issue" where
  "unmarshal_Issue = unmarshal_struct ''main.Issue'' Issue_member"

definition Forkee_member :: "string \<Rightarrow> json \<Rightarrow> Forkee \<Rightarrow> json_error + Forkee" where
  "Forkee_member k v f =
     (if field ''full_name'' k then
        (case unmarshal_string v (FullName f) of
           Inl e \<Rightarrow> Inl e
         | Inr s \<Rightarrow> Inr (f\<lparr>FullName := s\<rparr>))
      else Inr f)"

definition unmarshal_Forkee :: "json \<Rightarrow> Forkee \<Rightarrow> json_error + Forkee" where
  "unmarshal_Forkee = unmarshal_struct ''main.Forkee'' Forkee_member"

text \<open>
  \<open>[]any\<close>: an array replaces the slice, whose new length is the number of elements of
  the array; only that length is read by the program, so the entries are kept as the
  JSON values they were decoded from.
\<close>

definition unmarshal_Commits :: "json \<Rightarrow> json list \<Rightarrow> json_error + json list" where
  "unmarshal_Commits j cur =
     (case j of
        JArray xs \<Rightarrow> (case interface_errors xs of Some e \<Rightarrow> Inl e | None \<Rightarrow> Inr xs)
      | JNull \<Rightarrow> Inr []
      | _ \<Rightarrow> Inl (UnmarshalTypeError j ''[]interface {}''))"

definition Payload_member :: "string \<Rightarrow> json \<Rightarrow> Payload \<Rightarrow> json_error + Payload" where
  "Payload_member k v p =
     (if field ''action'' k then
        (case unmarshal_string v (Action p) of Inl e \<Rightarrow> Inl e | Inr s \<Rightarrow> Inr (p\<lparr>Action := s\<rparr>))
      else if field ''ref_type'' k then
        (case unmarshal_string v (RefType p) of Inl e \<Rightarrow> Inl e | Inr s \<Rightarrow> Inr (p\<lparr>RefType := s\<rparr>))
      else if field ''commits'' k then
        (case unmarshal_Commits v (Commits p) of Inl e \<Rightarrow> Inl e | Inr c \<Rightarrow> Inr (p\<lparr>Commits := c\<rparr>))
      else if field ''issue'' k then
        (case unmarshal_Issue v (Issue p) of Inl e \<Rightarrow> Inl e | Inr i \<Rightarrow> Inr (p\<lparr>Issue := i\<rparr>))
      else if field ''forkee'' k then
        (case unmarshal_Forkee v (Forkee p) of Inl e \<Rightarrow> Inl e | Inr f \<Rightarrow> Inr (p\<lparr>Forkee := f\<rparr>))
      else if field ''pull_request'' k then
        (case unmarshal_Issue v (PullRequest p) of
           Inl e \<Rightarrow> Inl e
         | Inr i \<Rightarrow> Inr (p\<lparr>PullRequest := i\<rparr>))
      else Inr p)"

definition unmarshal_Payload :: "json \<Rightarrow> Payload \<Rightarrow> json_error + Payload" where
  "unmarshal_Payload = unmarshal_struct ''main.Payload'' Payload_member"

definition Event_member :: "string \<Rightarrow> json \<Rightarrow> Event \<Rightarrow> json_error + Event" where
  "Event_member k v ev =
     (if field ''type'' k then
        (case unmarshal_string v (Type ev) of Inl e \<Rightarrow> Inl e | Inr s \<Rightarrow> Inr (ev\<lparr>Type := s\<rparr>))
      else if field ''repo'' k then
        (case unmarshal_Repo v (Repo ev) of Inl e \<Rightarrow> Inl e | Inr r \<Rightarrow> Inr (ev\<lparr>Repo := r\<rparr>))
      else if field ''payload'' k then
        (case unmarshal_Payload v (Payload ev) of
           Inl e \<Rightarrow> Inl e
         | Inr p \<Rightarrow> Inr (ev\<lparr>Payload := p\<rparr>))
      else Inr ev)"

definition unmarshal_Event :: "json \<Rightarrow> Event \<Rightarrow> json_error + Event" where
  "unmarshal_Event = unmarshal_struct ''main.Event'' Event_member"

text \<open>
  \<open>var events []Event\<close> is nil when the decoder starts, so every element of the array
  is decoded into a fresh zero \<open>Event\<close>.
\<close>

fun unmarshal_elements :: "json list \<Rightarrow> json_error + Event list" where
  "unmarshal_elements [] = Inr []"
| "unmarshal_elements (x # xs) =
     (case unmarshal_Event x zero_Event of
        Inl e \<Rightarrow> Inl e
      | Inr ev \<Rightarrow> (case unmarshal_elements xs of Inl e \<Rightarrow> Inl e | Inr evs \<Rightarrow> Inr (ev # evs)))"

definition unmarshal_events :: "json \<Rightarrow> json_error + Event list" where
  "unmarshal_events j =
     (case j of
        JArray xs \<Rightarrow> unmarshal_elements xs
      | JNull \<Rightarrow> Inr []
      | _ \<Rightarrow> Inl (UnmarshalTypeError j ''[]main.Event''))"

definition Unmarshal :: "document \<Rightarrow> json_error + Event list" where
  "Unmarshal body =
     (case body of
        Invalid msg \<Rightarrow> Inl (SyntaxError msg)
      | Valid j \<Rightarrow> unmarshal_events j)"

section \<open>The program\<close>

text \<open>
  The body of the loop of \<open>getGithubActivity\<close>: the text one event makes \<open>fmt.Printf\<close>
  write, with the newline that ends it.
\<close>

definition event_line :: "unicode \<Rightarrow> Event \<Rightarrow> string" where
  "event_line U event =
     (if Type event = ''PushEvent'' then
        ''- Pushed '' @ fmt_d (int (length (Commits (Payload event)))) @ '' commit(s) to '' @
        Name (Repo event) @ ''\<newline>''
      else if Type event = ''CreateEvent'' then
        ''- Created a new '' @ RefType (Payload event) @ '' in '' @ Name (Repo event) @ ''\<newline>''
      else if Type event = ''IssuesEvent'' then
        ''- '' @ strings_Title U (Action (Payload event)) @ '' an issue in '' @ Name (Repo event) @
        '': '' @ [CHR 0x22] @ Title (Issue (Payload event)) @ [CHR 0x22] @ ''\<newline>''
      else if Type event = ''IssueCommentEvent'' then
        ''- Commented on an issue in '' @ Name (Repo event) @
        '': '' @ [CHR 0x22] @ Title (Issue (Payload event)) @ [CHR 0x22] @ ''\<newline>''
      else if Type event = ''WatchEvent'' then
        ''- '' @ strings_Title U (Action (Payload event)) @ '' watching '' @ Name (Repo event) @
        ''\<newline>''
      else if Type event = ''ForkEvent'' then
        ''- Forked '' @ Name (Repo event) @ '' to '' @ FullName (Forkee (Payload event)) @
        ''\<newline>''
      else if Type event = ''PullRequestEvent'' then
        ''- '' @ strings_Title U (Action (Payload event)) @ '' a pull request in '' @
        Name (Repo event) @
        '': '' @ [CHR 0x22] @ Title (PullRequest (Payload event)) @ [CHR 0x22] @ ''\<newline>''
      else if Type event = ''PublicEvent'' then
        ''- Made '' @ Name (Repo event) @ '' public\<newline>''
      else
        ''- Performed a '' @ Type event @ '' on '' @ Name (Repo event) @ ''\<newline>'')"

text \<open>
  What \<open>http.Get\<close> returns: an error, or a response with its status code and its body.
  The body is read only after the status checks; \<open>io.ReadAll\<close> gives an error or the
  bytes, which stand here as the document the JSON scanner makes of them.
\<close>

record Response =
  StatusCode :: int
  Body :: "string + document"

text \<open>
  \<open>getGithubActivity\<close> returns everything the run writes to standard output. Its
  surroundings are parameters: \<open>U\<close> holds the tables of package \<open>unicode\<close>, \<open>Get\<close> is
  \<open>http.Get\<close>, from the URL to an error text or a response, and \<open>Error\<close> is the text
  \<open>%v\<close> prints for an error of \<open>json.Unmarshal\<close>.
\<close>

definition apiURL :: "string \<Rightarrow> string" where
  "apiURL username = ''https://api.github.com/users/'' @ username @ ''/events''"

definition getGithubActivity ::
  "unicode \<Rightarrow> (string \<Rightarrow> string + Response) \<Rightarrow> (json_error \<Rightarrow> string) \<Rightarrow> string \<Rightarrow>
   string" where
  "getGithubActivity U Get Error username =
     (case Get (apiURL username) of
        Inl err \<Rightarrow> ''Error: Could not reach GitHub API. Reason: '' @ err @ ''\<newline>''
      | Inr resp \<Rightarrow>
          if StatusCode resp = 404 then
            ''Error: Could not find GitHub user '' @ [CHR 0x27] @ username @ [CHR 0x27] @
            ''.\<newline>''
          else if StatusCode resp \<noteq> 200 then
            ''Error: Received status code '' @ fmt_d (StatusCode resp) @
            '' from GitHub API.\<newline>''
          else
            (case Body resp of
               Inl err \<Rightarrow> ''Error: Failed to read response body. Reason: '' @ err @ ''\<newline>''
             | Inr body \<Rightarrow>
                 (case Unmarshal body of
                    Inl err \<Rightarrow>
                      ''Error: Failed to parse the response from the GitHub API. Reason: '' @
                      Error err @ ''\<newline>''
                  | Inr events \<Rightarrow>
                      ''Recent Activity for '' @ username @ '':\<newline>\<newline>'' @
                      (if length events = 0 then ''No recent public activity found.\<newline>''
                       else concat (map (event_line U) events)))))"

section \<open>Notions used in the statements\<close>

subsection \<open>Decimal numerals\<close>

text \<open>
  The decimal numeral of a natural number, stated on the text alone: it is not empty, all
  its characters are the digits \<open>0\<close> to \<open>9\<close>, it does not start with \<open>0\<close> unless it
  is \<open>0\<close> itself, and its value in base ten is the number. The numeral of a negative
  integer is a minus sign and the numeral of its magnitude.
\<close>

definition dec_value :: "string \<Rightarrow> nat" where
  "dec_value s = foldl (\<lambda>a c. 10 * a + (byte c - 48)) 0 s"

definition numeral_of :: "string \<Rightarrow> nat \<Rightarrow> bool" where
  "numeral_of s n =
     (s \<noteq> [] \<and> list_all isDigit s \<and> (hd s = CHR ''0'' \<longrightarrow> s = ''0'') \<and> dec_value s = n)"

definition int_numeral_of :: "string \<Rightarrow> int \<Rightarrow> bool" where
  "int_numeral_of s i =
     (if i < 0 then s \<noteq> [] \<and> hd s = CHR ''-'' \<and> numeral_of (tl s) (nat (- i))
      else numeral_of s (nat i))"

subsection \<open>First-letter capitalisation, in the specification's words\<close>

text \<open>
  The action string with its first letter capitalised, by the \<open>unicode.ToTitle\<close> the
  program uses (the upper-case letter for an ASCII letter), and the rest unchanged: what
  the specification calls the capitalized action. It is compared with \<open>strings_Title\<close>.
\<close>

definition capitalize_first :: "unicode \<Rightarrow> string \<Rightarrow> string" where
  "capitalize_first U s =
     concat (map EncodeRune (case runes s of [] \<Rightarrow> [] | r # rs \<Rightarrow> ToTitle U r # rs))"

subsection \<open>JSON values that fit the Go types\<close>

text \<open>
  The shape a JSON value must have for the decoder to store it without an error, stated
  on the JSON value alone: \<open>null\<close> fits everywhere; a string field takes a JSON string; a
  struct takes an object whose members, where their key selects a field, fit that field;
  \<open>commits\<close> takes an array whose numbers all fit a \<open>float64\<close>; the event list takes an
  array of values that fit \<open>Event\<close>.
\<close>

definition is_array :: "json \<Rightarrow> bool" where
  "is_array j = (case j of JArray xs \<Rightarrow> True | _ \<Rightarrow> False)"

definition fits_string :: "json \<Rightarrow> bool" where
  "fits_string j = (case j of JString s \<Rightarrow> True | JNull \<Rightarrow> True | _ \<Rightarrow> False)"

definition fits_struct :: "(string \<Rightarrow> json \<Rightarrow> bool) \<Rightarrow> json \<Rightarrow> bool" where
  "fits_struct ok j =
     (case j of JObject kvs \<Rightarrow> list_all (\<lambda>(k, v). ok k v) kvs | JNull \<Rightarrow> True | _ \<Rightarrow> False)"

definition fits_Repo_member :: "string \<Rightarrow> json \<Rightarrow> bool" where
  "fits_Repo_member k v = (if field ''name'' k then fits_string v else True)"

definition fits_Repo :: "json \<Rightarrow> bool" where
  "fits_Repo = fits_struct fits_Repo_member"

definition fits_Issue_member :: "string \<Rightarrow> json \<Rightarrow> bool" where
  "fits_Issue_member k v = (if field ''title'' k then fits_string v else True)"

definition fits_Issue :: "json \<Rightarrow> bool" where
  "fits_Issue = fits_struct fits_Issue_member"

definition fits_Forkee_member :: "string \<Rightarrow> json \<Rightarrow> bool" where
  "fits_Forkee_member k v = (if field ''full_name'' k then fits_string v else True)"

definition fits_Forkee :: "json \<Rightarrow> bool" where
  "fits_Forkee = fits_struct fits_Forkee_member"

definition fits_Commits :: "json \<Rightarrow> bool" where
  "fits_Commits j =
     (case j of JArray xs \<Rightarrow> interface_errors xs = None | JNull \<Rightarrow> True | _ \<Rightarrow> False)"

definition fits_Payload_member :: "string \<Rightarrow> json \<Rightarrow> bool" where
  "fits_Payload_member k v =
     (if field ''action'' k then fits_string v
      else if field ''ref_type'' k then fits_string v
      else if field ''commits'' k then fits_Commits v
      else if field ''issue'' k then fits_Issue v
      else if field ''forkee'' k then fits_Forkee v
      else if field ''pull_request'' k then fits_Issue v
      else True)"

definition fits_Payload :: "json \<Rightarrow> bool" where
  "fits_Payload = fits_struct fits_Payload_member"

definition fits_Event_member :: "string \<Rightarrow> json \<Rightarrow> bool" where
  "fits_Event_member k v =
     (if field ''type'' k then fits_string v
      else if field ''repo'' k then fits_Repo v
      else if field ''payload'' k then fits_Payload v
      else True)"

definition fits_Event :: "json \<Rightarrow> bool" where
  "fits_Event = fits_struct fits_Event_member"

definition fits_events :: "json \<Rightarrow> bool" where
  "fits_events j =
     (case j of JArray xs \<Rightarrow> list_all fits_Event xs | JNull \<Rightarrow> True | _ \<Rightarrow> False)"

definition accepted :: "document \<Rightarrow> bool" where
  "accepted body = (case body of Invalid msg \<Rightarrow> False | Valid j \<Rightarrow> fits_events j)"

subsection \<open>Lines of the output\<close>

text \<open>
  A string that holds no newline. The operands of an event are the strings its case of
  the \<open>switch\<close> hands to \<open>fmt.Printf\<close>, in the order of the call, the count of a push
  event as \<open>%d\<close> prints it.
\<close>

definition single_line :: "string \<Rightarrow> bool" where
  "single_line s = (CHR ''\<newline>'' \<notin> set s)"

definition newlines :: "string \<Rightarrow> nat" where
  "newlines s = count_list s (CHR ''\<newline>'')"

text \<open>
  The lines of a text: the pieces that end at its newlines, without the newline, and
  what follows the last newline when that is not empty.
\<close>

fun lines_from :: "string \<Rightarrow> string \<Rightarrow> string list" where
  "lines_from cur [] = (if cur = [] then [] else [cur])"
| "lines_from cur (c # s) =
     (if c = CHR ''\<newline>'' then cur # lines_from [] s else lines_from (cur @ [c]) s)"

definition lines_of :: "string \<Rightarrow> string list" where
  "lines_of s = lines_from [] s"

definition operands :: "unicode \<Rightarrow> Event \<Rightarrow> string list" where
  "operands U event =
     (if Type event = ''PushEvent'' then
        [fmt_d (int (length (Commits (Payload event)))), Name (Repo event)]
      else if Type event = ''CreateEvent'' then [RefType (Payload event), Name (Repo event)]
      else if Type event = ''IssuesEvent'' then
        [strings_Title U (Action (Payload event)), Name (Repo event),
         Title (Issue (Payload event))]
      else if Type event = ''IssueCommentEvent'' then
        [Name (Repo event), Title (Issue (Payload event))]
      else if Type event = ''WatchEvent'' then
        [strings_Title U (Action (Payload event)), Name (Repo event)]
      else if Type event = ''ForkEvent'' then
        [Name (Repo event), FullName (Forkee (Payload event))]
      else if Type event = ''PullRequestEvent'' then
        [strings_Title U (Action (Payload event)), Name (Repo event),
         Title (PullRequest (Payload event))]
      else if Type event = ''PublicEvent'' then [Name (Repo event)]
      else [Type event, Name (Repo event)])"

subsection \<open>The payload fields a category reads\<close>

text \<open>
  The tags of the payload fields that the case of the \<open>switch\<close> for a category reads;
  the cases for \<open>PublicEvent\<close> and for an unrecognized category read none. A key names
  one of a list of tags when it selects the field of one of them. Two payloads agree on a
  list of tags when the fields with those tags are equal.
\<close>

definition reads :: "string \<Rightarrow> string list" where
  "reads ty =
     (if ty = ''PushEvent'' then [''commits'']
      else if ty = ''CreateEvent'' then [''ref_type'']
      else if ty = ''IssuesEvent'' then [''action'', ''issue'']
      else if ty = ''IssueCommentEvent'' then [''issue'']
      else if ty = ''WatchEvent'' then [''action'']
      else if ty = ''ForkEvent'' then [''forkee'']
      else if ty = ''PullRequestEvent'' then [''action'', ''pull_request'']
      else [])"

definition names :: "string list \<Rightarrow> string \<Rightarrow> bool" where
  "names tags k = list_ex (\<lambda>tag. field tag k) tags"

definition agree :: "string list \<Rightarrow> Payload \<Rightarrow> Payload \<Rightarrow> bool" where
  "agree tags p q =
     ((''action'' \<in> set tags \<longrightarrow> Action p = Action q) \<and>
      (''ref_type'' \<in> set tags \<longrightarrow> RefType p = RefType q) \<and>
      (''commits'' \<in> set tags \<longrightarrow> Commits p = Commits q) \<and>
      (''issue'' \<in> set tags \<longrightarrow> Issue p = Issue q) \<and>
      (''forkee'' \<in> set tags \<longrightarrow> Forkee p = Forkee q) \<and>
      (''pull_request'' \<in> set tags \<longrightarrow> PullRequest p = PullRequest q))"

text \<open>
  An empty JSON value, whatever its type: \<open>null\<close>, the empty string, the empty array or
  the empty object.
\<close>

definition empty_json :: "json \<Rightarrow> bool" where
  "empty_json v = (v = JNull \<or> v = JString [] \<or> v = JArray [] \<or> v = JObject [])"

text \<open>
  An empty member of a payload: \<open>null\<close>, or the empty value of the field's JSON type
  (the empty string, the empty array, the empty object). A member that names no field of
  \<open>Payload\<close> is skipped by the decoder, whatever it holds.
\<close>

definition empty_member :: "string \<Rightarrow> json \<Rightarrow> bool" where
  "empty_member k v =
     (if field ''action'' k \<or> field ''ref_type'' k then v = JNull \<or> v = JString []
      else if field ''commits'' k then v = JNull \<or> v = JArray []
      else if field ''issue'' k \<or> field ''forkee'' k \<or> field ''pull_request'' k
        then v = JNull \<or> v = JObject []
      else True)"

text \<open>
  An event object with the payload members that name no field in a list of tags left
  out, and an event object in which every such payload member is empty. Two events have
  the same view on a list of tags when they have the same category and repository and
  their payloads agree on the tags.
\<close>

definition without_unread_payload :: "string list \<Rightarrow> json \<Rightarrow> json" where
  "without_unread_payload tags v =
     (case v of JObject kvs \<Rightarrow> JObject (filter (\<lambda>(k, v). names tags k) kvs) | _ \<Rightarrow> v)"

definition without_unread :: "string list \<Rightarrow> json \<Rightarrow> json" where
  "without_unread tags j =
     (case j of
        JObject kvs \<Rightarrow>
          JObject (map (\<lambda>(k, v). if field ''payload'' k then (k, without_unread_payload tags v)
                               else (k, v)) kvs)
      | _ \<Rightarrow> j)"

definition unread_empty_payload :: "string list \<Rightarrow> json \<Rightarrow> bool" where
  "unread_empty_payload tags v =
     (case v of
        JObject kvs \<Rightarrow> list_all (\<lambda>(k, v). names tags k \<or> empty_member k v) kvs
      | _ \<Rightarrow> True)"

definition unread_empty :: "string list \<Rightarrow> json \<Rightarrow> bool" where
  "unread_empty tags j =
     (case j of
        JObject kvs \<Rightarrow>
          list_all (\<lambda>(k, v). if field ''payload'' k then unread_empty_payload tags v else True) kvs
      | _ \<Rightarrow> True)"

definition same_view :: "string list \<Rightarrow> Event \<Rightarrow> Event \<Rightarrow> bool" where
  "same_view tags ev ev' =
     (Type ev = Type ev' \<and> Repo ev = Repo ev' \<and> agree tags (Payload ev) (Payload ev'))"

text \<open>
  An event whose payload leaves \<open>commits\<close> out or carries it as \<open>null\<close>: in every
  object stored in the payload, each member that names \<open>commits\<close> is \<open>null\<close>.
\<close>

definition omits_commits_payload :: "json \<Rightarrow> bool" where
  "omits_commits_payload j =
     (case j of
        JObject kvs \<Rightarrow> list_all (\<lambda>(k, v). field ''commits'' k \<longrightarrow> v = JNull) kvs
      | _ \<Rightarrow> True)"

definition omits_commits :: "json \<Rightarrow> bool" where
  "omits_commits j =
     (case j of
        JObject kvs \<Rightarrow> list_all (\<lambda>(k, v). field ''payload'' k \<longrightarrow> omits_commits_payload v) kvs
      | _ \<Rightarrow> True)"

subsection \<open>A fixed answer, for the examples\<close>

text \<open>
  The examples run the program with a fragment of the tables of package \<open>unicode\<close>
  (the letters \<open>U+00E9\<close> and \<open>U+00C9\<close>, the second the title case of the first, and
  the space \<open>U+2003\<close>; no other rune beyond ASCII is a letter, a digit or a space or
  has a case), against an \<open>http.Get\<close> that answers every URL with one response, and
  print an error of \<open>json.Unmarshal\<close> as Go does when no struct field is involved: the
  scanner's message, or the kind of the JSON value and the Go type.
\<close>

definition sample_unicode :: unicode where
  "sample_unicode =
     \<lparr>IsLetter = (\<lambda>r. r = 0xE9 \<or> r = 0xC9), IsDigit = (\<lambda>r. False),
      IsSpace = (\<lambda>r. r = 0x2003), To_TitleCase = (\<lambda>r. if r = 0xE9 then 0xC9 else r)\<rparr>"

definition serve :: "Response \<Rightarrow> string \<Rightarrow> string + Response" where
  "serve resp url = Inr resp"

definition kind :: "json \<Rightarrow> string" where
  "kind j =
     (case j of
        JNull \<Rightarrow> ''null''
      | JBool b \<Rightarrow> ''bool''
      | JNumber m e \<Rightarrow> ''number''
      | JString s \<Rightarrow> ''string''
      | JArray xs \<Rightarrow> ''array''
      | JObject kvs \<Rightarrow> ''object'')"

definition error_text :: "json_error \<Rightarrow> string" where
  "error_text err =
     (case err of
        SyntaxError msg \<Rightarrow> msg
      | UnmarshalTypeError j ty \<Rightarrow>
          ''json: cannot unmarshal '' @ kind j @ '' into Go value of type '' @ ty)"

section \<open>Properties of the formatting functions\<close>

lemma byte_char_of: "n < 256 \<Longrightarrow> byte (char_of n) = n"
  by (simp add: byte_def)

lemma char_of_byte: "char_of (byte c) = c"
  by (simp add: byte_def)

lemma char_of_48: "char_of (48::nat) = CHR ''0''"
  by code_simp

lemma byte_48: "(byte c = 48) = (c = CHR ''0'')"
proof
  assume "byte c = 48"
  then have "char_of (byte c) = char_of (48::nat)" by simp
  then show "c = CHR ''0''" by (simp only: char_of_byte char_of_48)
next
  assume "c = CHR ''0''"
  then show "byte c = 48" by (simp add: byte_def)
qed

lemma dec_value_snoc: "dec_value (s @ [c]) = 10 * dec_value s + (byte c - 48)"
  by (simp add: dec_value_def)

lemma digits_small: "n < 10 \<Longrightarrow> digits n = [char_of (48 + n)]"
  by (subst digits.simps) simp

lemma digits_step: "\<not> n < 10 \<Longrightarrow> digits n = digits (n div 10) @ [char_of (48 + n mod 10)]"
  by (subst digits.simps) simp

lemma dec_value_digits: "dec_value (digits n) = n"
proof (induction n rule: digits.induct)
  case (1 n)
  show ?case
  proof (cases "n < 10")
    case True
    then show ?thesis by (simp add: digits_small dec_value_def byte_char_of)
  next
    case False
    have "dec_value (digits n) =
        10 * dec_value (digits (n div 10)) + (byte (char_of (48 + n mod 10)) - 48)"
      using False by (simp add: digits_step dec_value_snoc)
    also have "\<dots> = 10 * (n div 10) + n mod 10"
      using 1 False by (simp add: byte_char_of)
    finally show ?thesis by simp
  qed
qed

lemma digits_all_digit: "list_all isDigit (digits n)"
proof (induction n rule: digits.induct)
  case (1 n)
  show ?case
  proof (cases "n < 10")
    case True
    then show ?thesis by (simp add: digits_small isDigit_def byte_char_of)
  next
    case False
    then show ?thesis using 1 by (simp add: digits_step isDigit_def byte_char_of)
  qed
qed

lemma digits_not_Nil: "digits n \<noteq> []"
  by (cases "n < 10") (simp_all add: digits_small digits_step)

lemma hd_digits_zero: "hd (digits n) = CHR ''0'' \<Longrightarrow> n = 0"
proof (induction n rule: digits.induct)
  case (1 n)
  show ?case
  proof (cases "n < 10")
    case True
    with "1.prems" have "byte (char_of (48 + n)) = 48"
      by (simp add: digits_small byte_48)
    with True show ?thesis by (simp add: byte_char_of)
  next
    case False
    with "1.prems" have "hd (digits (n div 10)) = CHR ''0''"
      by (simp add: digits_step digits_not_Nil)
    with "1.IH" False have "n div 10 = 0" by simp
    with False show ?thesis by simp
  qed
qed

lemma numeral_of_digits: "numeral_of (digits n) n"
proof -
  have "hd (digits n) = CHR ''0'' \<longrightarrow> digits n = ''0''"
  proof
    assume "hd (digits n) = CHR ''0''"
    then have "n = 0" by (rule hd_digits_zero)
    then show "digits n = ''0''" by (simp add: digits_small char_of_48)
  qed
  then show ?thesis
    by (simp add: numeral_of_def digits_not_Nil digits_all_digit dec_value_digits)
qed

lemma int_numeral_of_fmt_d: "int_numeral_of (fmt_d i) i"
  by (simp add: int_numeral_of_def fmt_d_def numeral_of_digits)

lemma numeral_of_fmt_d: "numeral_of (fmt_d (int n)) n"
  by (simp add: fmt_d_def numeral_of_digits)

text \<open>Only one text is the numeral of a number.\<close>

lemma dec_value_positive:
  assumes "list_all isDigit s" and "s \<noteq> []" and "hd s \<noteq> CHR ''0''"
  shows "0 < dec_value s"
  using assms
proof (induction s rule: rev_induct)
  case Nil
  then show ?case by simp
next
  case (snoc c s)
  show ?case
  proof (cases "s = []")
    case True
    with snoc.prems have "isDigit c" and "c \<noteq> CHR ''0''" by simp_all
    then have "48 \<le> byte c" and "byte c \<noteq> 48"
      by (simp_all add: isDigit_def byte_48)
    then have "48 < byte c" by arith
    with True show ?thesis by (simp add: dec_value_def)
  next
    case False
    with snoc have "0 < dec_value s" by simp
    then show ?thesis by (simp add: dec_value_snoc)
  qed
qed

lemma canonical_unique:
  assumes "list_all isDigit s" and "s = [] \<or> hd s \<noteq> CHR ''0''"
    and "list_all isDigit t" and "t = [] \<or> hd t \<noteq> CHR ''0''"
    and "dec_value s = dec_value t"
  shows "s = t"
  using assms
proof (induction s arbitrary: t rule: rev_induct)
  case Nil
  show ?case
  proof (rule ccontr)
    assume "[] \<noteq> t"
    with Nil.prems have "0 < dec_value t" by (intro dec_value_positive) auto
    with Nil.prems show False by (simp add: dec_value_def)
  qed
next
  case (snoc c s)
  from snoc.prems(1) have ds: "list_all isDigit s" and dc: "isDigit c" by simp_all
  from snoc.prems(1,2) have "0 < dec_value (s @ [c])"
    by (intro dec_value_positive) auto
  with snoc.prems(5) have "t \<noteq> []" by (auto simp: dec_value_def)
  then obtain t' d where t: "t = t' @ [d]" by (cases t rule: rev_cases) auto
  with snoc.prems(3) have dt: "list_all isDigit t'" and dd: "isDigit d" by simp_all
  from snoc.prems(5) t
  have eq: "10 * dec_value s + (byte c - 48) = 10 * dec_value t' + (byte d - 48)"
    by (simp add: dec_value_snoc)
  from dc dd have "byte c - 48 < 10" "byte d - 48 < 10" by (auto simp: isDigit_def)
  with eq have v: "dec_value s = dec_value t'" and b: "byte c - 48 = byte d - 48" by arith+
  from b dc dd have "byte c = byte d" by (auto simp: isDigit_def)
  then have cd: "c = d" by (simp add: byte_def)
  from snoc.prems(2) have hs: "s = [] \<or> hd s \<noteq> CHR ''0''" by (cases s) auto
  from snoc.prems(4) t have ht: "t' = [] \<or> hd t' \<noteq> CHR ''0''" by (cases t') auto
  from snoc.IH[OF ds hs dt ht v] cd t show ?case by simp
qed

lemma dec_value_zeros:
  assumes "list_all isDigit s" and "dec_value s = 0"
  shows "\<forall>c\<in>set s. c = CHR ''0''"
  using assms
proof (induction s rule: rev_induct)
  case Nil
  show ?case by simp
next
  case (snoc c s)
  from snoc.prems have "dec_value s = 0" and "byte c - 48 = 0" and "isDigit c"
    by (simp_all add: dec_value_snoc)
  moreover from this have "byte c = 48" by (auto simp: isDigit_def)
  then have "c = CHR ''0''" by (simp add: byte_48)
  ultimately show ?case using snoc by simp
qed

lemma numeral_of_unique:
  assumes "numeral_of s n" and "numeral_of t n"
  shows "s = t"
proof -
  have zero: "u = ''0''" if "numeral_of u 0" for u
  proof -
    from that have "list_all isDigit u" "dec_value u = 0" "u \<noteq> []"
      and h: "hd u = CHR ''0'' \<longrightarrow> u = ''0''"
      by (simp_all add: numeral_of_def)
    from dec_value_zeros[OF this(1,2)] \<open>u \<noteq> []\<close> have "hd u = CHR ''0''" by (cases u) auto
    with h show ?thesis by simp
  qed
  show ?thesis
  proof (cases "n = 0")
    case True
    with assms zero[of s] zero[of t] show ?thesis by simp
  next
    case False
    have nz: "hd u \<noteq> CHR ''0''" if "numeral_of u n" for u
    proof
      assume "hd u = CHR ''0''"
      with that have u: "u = ''0''" by (simp add: numeral_of_def)
      from that have "dec_value u = n" unfolding numeral_of_def by blast
      moreover have "dec_value ''0'' = 0" by (simp add: dec_value_def byte_def)
      ultimately show False using False u by simp
    qed
    from assms have d: "list_all isDigit s" "list_all isDigit t"
      and v: "dec_value s = dec_value t"
      by (simp_all add: numeral_of_def)
    from nz[OF assms(1)] have hs: "s = [] \<or> hd s \<noteq> CHR ''0''" by (rule disjI2)
    from nz[OF assms(2)] have ht: "t = [] \<or> hd t \<noteq> CHR ''0''" by (rule disjI2)
    from d(1) hs d(2) ht v show ?thesis by (rule canonical_unique)
  qed
qed

section \<open>Properties of \<open>strings.Title\<close>\<close>

lemma length_Title_from: "length (Title_from U p rs) = length rs"
  by (induction rs arbitrary: p) auto

lemma nth_Title_from:
  "i < length rs \<Longrightarrow>
   Title_from U p rs ! i =
     (if isSeparator U (if i = 0 then p else rs ! (i - 1)) then ToTitle U (rs ! i) else rs ! i)"
proof (induction rs arbitrary: p i)
  case Nil
  then show ?case by simp
next
  case (Cons r rs)
  show ?case
  proof (cases i)
    case 0
    then show ?thesis by simp
  next
    case (Suc j)
    with Cons.prems have "j < length rs" by simp
    from Cons.IH[OF this, of r] Suc show ?thesis
      by (cases j) auto
  qed
qed

lemma isSeparator_space: "isSeparator U 32"
  by (simp add: isSeparator_def)

lemma Title_from_single_token:
  assumes "\<forall>i. Suc i < length (r # rs) \<longrightarrow> \<not> isSeparator U ((r # rs) ! i)"
  shows "Title_from U r rs = rs"
  using assms
proof (induction rs arbitrary: r)
  case Nil
  show ?case by simp
next
  case (Cons q rs)
  from Cons.prems have "\<not> isSeparator U r" by fastforce
  moreover have "\<forall>i. Suc i < length (q # rs) \<longrightarrow> \<not> isSeparator U ((q # rs) ! i)"
  proof (intro allI impI)
    fix i assume "Suc i < length (q # rs)"
    then have "Suc (Suc i) < length (r # q # rs)" by simp
    with Cons.prems have "\<not> isSeparator U ((r # q # rs) ! Suc i)" by blast
    then show "\<not> isSeparator U ((q # rs) ! i)" by simp
  qed
  from Cons.IH[OF this] have "Title_from U q rs = rs" .
  ultimately show ?case by simp
qed

lemma strings_Title_single_token:
  assumes "\<forall>i. Suc i < length (runes s) \<longrightarrow> \<not> isSeparator U (runes s ! i)"
  shows "strings_Title U s = capitalize_first U s"
proof (cases "runes s")
  case Nil
  then show ?thesis by (simp add: strings_Title_def capitalize_first_def)
next
  case (Cons r rs)
  with assms have "Title_from U r rs = rs" by (intro Title_from_single_token) simp
  with Cons show ?thesis
    by (simp add: strings_Title_def capitalize_first_def isSeparator_space)
qed

text \<open>On ASCII text a rune is a byte.\<close>

lemma runes_ascii: "ascii s \<Longrightarrow> runes s = map byte s"
  by (induction s) (simp_all add: ascii_def DecodeRune_def)

lemma ToTitle_ascii: "r < 128 \<Longrightarrow> ToTitle U r < 128"
  unfolding ToTitle_def by auto

lemma Title_from_ascii:
  "\<forall>r\<in>set rs. r < 128 \<Longrightarrow> \<forall>r\<in>set (Title_from U p rs). r < 128"
  by (induction rs arbitrary: p) (auto simp: ToTitle_ascii)

lemma EncodeRunes_ascii: "\<forall>r\<in>set rs. r < 128 \<Longrightarrow> concat (map EncodeRune rs) = map char_of rs"
  by (induction rs) (simp_all add: EncodeRune_def)

lemma strings_Title_ascii:
  assumes "ascii s"
  shows "strings_Title U s = map char_of (Title_from U 32 (map byte s))"
proof -
  from assms have "\<forall>r\<in>set (map byte s). r < 128" by (auto simp: ascii_def list_all_iff)
  then have "\<forall>r\<in>set (Title_from U 32 (map byte s)). r < 128" by (rule Title_from_ascii)
  then show ?thesis
    by (simp add: strings_Title_def runes_ascii[OF assms] EncodeRunes_ascii)
qed

lemma strings_Title_ascii_bytes:
  assumes "ascii s"
  shows "length (strings_Title U s) = length s"
    and "i < length s \<Longrightarrow>
      byte (strings_Title U s ! i) =
        (if (i = 0 \<or> isSeparator U (byte (s ! (i - 1)))) \<and> isLower (s ! i)
         then byte (s ! i) - 32 else byte (s ! i))"
proof -
  show "length (strings_Title U s) = length s"
    by (simp add: strings_Title_ascii[OF assms] length_Title_from)
next
  assume i: "i < length s"
  let ?rs = "map byte s"
  from i have il: "i < length ?rs" by simp
  from assms i have small: "byte (s ! i) < 128" by (simp add: ascii_def list_all_length)
  have sep: "isSeparator U (if i = 0 then 32 else ?rs ! (i - 1)) =
      (i = 0 \<or> isSeparator U (byte (s ! (i - 1))))"
    using i by (cases i) (simp_all add: isSeparator_space)
  have "strings_Title U s ! i = char_of (Title_from U 32 ?rs ! i)"
    using i by (simp add: strings_Title_ascii[OF assms] length_Title_from)
  also have "Title_from U 32 ?rs ! i =
      (if i = 0 \<or> isSeparator U (byte (s ! (i - 1))) then ToTitle U (byte (s ! i)) else byte (s ! i))"
    using nth_Title_from[OF il, of U 32] sep i by simp
  finally have "byte (strings_Title U s ! i) =
      (if i = 0 \<or> isSeparator U (byte (s ! (i - 1))) then ToTitle U (byte (s ! i)) else byte (s ! i))"
    using small ToTitle_ascii[OF small, of U] by (simp add: byte_char_of)
  then show "byte (strings_Title U s ! i) =
        (if (i = 0 \<or> isSeparator U (byte (s ! (i - 1)))) \<and> isLower (s ! i)
         then byte (s ! i) - 32 else byte (s ! i))"
    using small by (simp add: ToTitle_def isLower_def)
qed

section \<open>When the decoder reports an error\<close>

lemma isl_unmarshal_string: "isl (unmarshal_string j cur) = (\<not> fits_string j)"
  by (cases j) (simp_all add: unmarshal_string_def fits_string_def)

lemma isl_members:
  assumes "\<And>k v cur. isl (f k v cur) = (\<not> ok k v)"
  shows "isl (members f kvs cur) = (\<not> list_all (\<lambda>(k, v). ok k v) kvs)"
proof (induction kvs arbitrary: cur)
  case Nil
  show ?case by simp
next
  case (Cons kv kvs)
  obtain k v where kv: "kv = (k, v)" by (cases kv)
  show ?case
  proof (cases "f k v cur")
    case (Inl e)
    with assms[of k v cur] show ?thesis by (simp add: kv)
  next
    case (Inr cur')
    with assms[of k v cur] Cons.IH[of cur'] show ?thesis by (simp add: kv)
  qed
qed

lemma isl_unmarshal_struct:
  assumes "\<And>k v cur. isl (f k v cur) = (\<not> ok k v)"
  shows "isl (unmarshal_struct ty f j cur) = (\<not> fits_struct ok j)"
  by (cases j) (simp_all add: unmarshal_struct_def fits_struct_def isl_members[of f ok, OF assms])

lemma isl_store: "isl (case x of Inl e \<Rightarrow> Inl e | Inr s \<Rightarrow> Inr (g s)) = isl x"
  by (cases x) simp_all

lemma isl_Repo_member: "isl (Repo_member k v r) = (\<not> fits_Repo_member k v)"
  by (simp add: Repo_member_def fits_Repo_member_def isl_store isl_unmarshal_string)

lemma isl_unmarshal_Repo: "isl (unmarshal_Repo j cur) = (\<not> fits_Repo j)"
  unfolding unmarshal_Repo_def fits_Repo_def
  by (rule isl_unmarshal_struct) (rule isl_Repo_member)

lemma isl_Issue_member: "isl (Issue_member k v r) = (\<not> fits_Issue_member k v)"
  by (simp add: Issue_member_def fits_Issue_member_def isl_store isl_unmarshal_string)

lemma isl_unmarshal_Issue: "isl (unmarshal_Issue j cur) = (\<not> fits_Issue j)"
  unfolding unmarshal_Issue_def fits_Issue_def
  by (rule isl_unmarshal_struct) (rule isl_Issue_member)

lemma isl_Forkee_member: "isl (Forkee_member k v r) = (\<not> fits_Forkee_member k v)"
  by (simp add: Forkee_member_def fits_Forkee_member_def isl_store isl_unmarshal_string)

lemma isl_unmarshal_Forkee: "isl (unmarshal_Forkee j cur) = (\<not> fits_Forkee j)"
  unfolding unmarshal_Forkee_def fits_Forkee_def
  by (rule isl_unmarshal_struct) (rule isl_Forkee_member)

lemma isl_unmarshal_Commits: "isl (unmarshal_Commits j cur) = (\<not> fits_Commits j)"
  by (cases j) (simp_all add: unmarshal_Commits_def fits_Commits_def split: option.splits)

lemma isl_Payload_member: "isl (Payload_member k v p) = (\<not> fits_Payload_member k v)"
  by (simp add: Payload_member_def fits_Payload_member_def isl_store isl_unmarshal_string
      isl_unmarshal_Commits isl_unmarshal_Issue isl_unmarshal_Forkee)

lemma isl_unmarshal_Payload: "isl (unmarshal_Payload j cur) = (\<not> fits_Payload j)"
  unfolding unmarshal_Payload_def fits_Payload_def
  by (rule isl_unmarshal_struct) (rule isl_Payload_member)

lemma isl_Event_member: "isl (Event_member k v ev) = (\<not> fits_Event_member k v)"
  by (simp add: Event_member_def fits_Event_member_def isl_store isl_unmarshal_string
      isl_unmarshal_Repo isl_unmarshal_Payload)

lemma isl_unmarshal_Event: "isl (unmarshal_Event j cur) = (\<not> fits_Event j)"
  unfolding unmarshal_Event_def fits_Event_def
  by (rule isl_unmarshal_struct) (rule isl_Event_member)

lemma isl_unmarshal_elements: "isl (unmarshal_elements xs) = (\<not> list_all fits_Event xs)"
proof (induction xs)
  case Nil
  show ?case by simp
next
  case (Cons x xs)
  show ?case
  proof (cases "unmarshal_Event x zero_Event")
    case (Inl e)
    with isl_unmarshal_Event[of x zero_Event] show ?thesis by simp
  next
    case (Inr ev)
    with isl_unmarshal_Event[of x zero_Event] Cons.IH show ?thesis
      by (cases "unmarshal_elements xs") simp_all
  qed
qed

lemma isl_unmarshal_events: "isl (unmarshal_events j) = (\<not> fits_events j)"
  by (cases j) (simp_all add: unmarshal_events_def fits_events_def isl_unmarshal_elements)

text \<open>\<open>json.Unmarshal\<close> returns an error exactly for the bodies that are not accepted.\<close>

lemma isl_Unmarshal: "isl (Unmarshal body) = (\<not> accepted body)"
  by (cases body) (simp_all add: Unmarshal_def accepted_def isl_unmarshal_events)

section \<open>The output of a run\<close>

lemma serve_apply [simp]: "serve resp url = Inr resp"
  by (simp add: serve_def)

lemma output_of_events:
  assumes "Get (apiURL username) = Inr resp"
    and "StatusCode resp = 200"
    and "Body resp = Inr body"
    and "Unmarshal body = Inr events"
  shows "getGithubActivity U Get Error username =
      ''Recent Activity for '' @ username @ '':\<newline>\<newline>'' @
      (if events = [] then ''No recent public activity found.\<newline>''
       else concat (map (event_line U) events))"
  using assms by (simp add: getGithubActivity_def)

lemma line_in_concat:
  assumes "ev \<in> set events"
  shows "\<exists>before after. concat (map (event_line U) events) = before @ event_line U ev @ after"
proof -
  from assms obtain xs ys where "events = xs @ ev # ys"
    by (auto simp: in_set_conv_decomp)
  then have "concat (map (event_line U) events) =
      concat (map (event_line U) xs) @ event_line U ev @ concat (map (event_line U) ys)"
    by simp
  then show ?thesis by blast
qed

lemma line_in_output:
  assumes "Get (apiURL username) = Inr resp"
    and "StatusCode resp = 200"
    and "Body resp = Inr body"
    and "Unmarshal body = Inr events"
    and "ev \<in> set events"
  shows "\<exists>before after. getGithubActivity U Get Error username = before @ event_line U ev @ after"
proof -
  from assms(5) have ne: "events \<noteq> []" by auto
  from line_in_concat[OF assms(5)] obtain b a where
    "concat (map (event_line U) events) = b @ event_line U ev @ a" by blast
  with output_of_events[where U = U and Get = Get and username = username and Error = Error, OF assms(1-4)] ne
  have "getGithubActivity U Get Error username =
      (''Recent Activity for '' @ username @ '':\<newline>\<newline>'' @ b) @ event_line U ev @ a"
    by simp
  then show ?thesis by blast
qed

section \<open>Lines and their order\<close>

lemma single_line_digits: "single_line (digits n)"
proof -
  have "\<not> isDigit (CHR ''\<newline>'')" by (simp add: isDigit_def byte_def)
  with digits_all_digit[of n] show ?thesis
    by (auto simp: single_line_def list_all_iff)
qed

lemma single_line_fmt_d: "single_line (fmt_d i)"
  using single_line_digits by (simp add: fmt_d_def single_line_def)

lemma newlines_append [simp]: "newlines (s @ t) = newlines s + newlines t"
  by (simp add: newlines_def)

lemma newlines_literal [simp]:
  "newlines [] = 0"
  "newlines (c # s) = (if c = CHR ''\<newline>'' then newlines s + 1 else newlines s)"
  by (simp_all add: newlines_def)

lemma newlines_single_line: "single_line s \<Longrightarrow> newlines s = 0"
  by (simp add: single_line_def newlines_def)

text \<open>
  The text written for an event holds the newline that ends it and the newlines of its
  operands, and no other.
\<close>

lemma newlines_event_line:
  "newlines (event_line U ev) = 1 + sum_list (map newlines (operands U ev))"
  by (simp add: event_line_def operands_def newlines_single_line[OF single_line_fmt_d])

lemma newlines_lines:
  "newlines (concat (map (event_line U) events)) =
     length events + sum_list (map (\<lambda>ev. sum_list (map newlines (operands U ev))) events)"
  by (induction events) (simp_all add: newlines_event_line)

lemma sum_list_zero: "\<forall>x\<in>set xs. f x = (0::nat) \<Longrightarrow> sum_list (map f xs) = 0"
  by (induction xs) simp_all

lemma newlines_lines_single:
  assumes "\<forall>ev\<in>set events. \<forall>s\<in>set (operands U ev). single_line s"
  shows "newlines (concat (map (event_line U) events)) = length events"
proof -
  have "sum_list (map newlines (operands U ev)) = 0" if "ev \<in> set events" for ev
    using assms that by (intro sum_list_zero) (simp add: newlines_single_line)
  then have "sum_list (map (\<lambda>ev. sum_list (map newlines (operands U ev))) events) = 0"
    by (intro sum_list_zero) simp
  then show ?thesis by (simp add: newlines_lines)
qed

lemma event_line_shape: "\<exists>text. event_line U ev = ''- '' @ text @ ''\<newline>''"
  by (simp add: event_line_def)

lemma lines_from_line:
  "single_line t \<Longrightarrow>
   lines_from cur (t @ CHR ''\<newline>'' # rest) = (cur @ t) # lines_from [] rest"
  by (induction t arbitrary: cur) (auto simp: single_line_def)

lemma event_line_text:
  "event_line U ev = butlast (event_line U ev) @ ''\<newline>''"
proof -
  from event_line_shape[of U ev] obtain inner where
    t: "event_line U ev = ''- '' @ inner @ ''\<newline>''" by blast
  have "butlast (''- '' @ inner @ ''\<newline>'') = ''- '' @ inner"
    by (simp add: butlast_append)
  with t show ?thesis by simp
qed

lemma single_line_text:
  assumes "\<forall>s\<in>set (operands U ev). single_line s"
  shows "single_line (butlast (event_line U ev))"
proof -
  from assms have "sum_list (map newlines (operands U ev)) = 0"
    by (intro sum_list_zero) (simp add: newlines_single_line)
  then have "newlines (event_line U ev) = 1" by (simp add: newlines_event_line)
  then have "newlines (butlast (event_line U ev) @ ''\<newline>'') = 1"
    using event_line_text[of U ev] by simp
  then have "newlines (butlast (event_line U ev)) = 0" by simp
  then show ?thesis by (simp add: newlines_def single_line_def count_list_0_iff)
qed

lemma lines_of_lines:
  assumes "\<forall>ev\<in>set events. \<forall>s\<in>set (operands U ev). single_line s"
  shows "lines_of (concat (map (event_line U) events)) =
         map (\<lambda>ev. butlast (event_line U ev)) events"
  using assms
proof (induction events)
  case Nil
  show ?case by (simp add: lines_of_def)
next
  case (Cons ev events)
  from Cons.prems have "single_line (butlast (event_line U ev))"
    by (intro single_line_text) simp
  from lines_from_line[OF this, of "[]" "concat (map (event_line U) events)"]
  have "lines_from [] ((butlast (event_line U ev) @ ''\<newline>'') @ concat (map (event_line U) events)) =
      butlast (event_line U ev) # lines_from [] (concat (map (event_line U) events))"
    by simp
  then have "lines_from [] (event_line U ev @ concat (map (event_line U) events)) =
      butlast (event_line U ev) # lines_from [] (concat (map (event_line U) events))"
    using event_line_text[of U ev] by simp
  with Cons show ?case by (simp add: lines_of_def)
qed

lemma unmarshal_elements_nth:
  "unmarshal_elements xs = Inr events \<Longrightarrow>
   length events = length xs \<and> (\<forall>i<length xs. unmarshal_Event (xs ! i) zero_Event = Inr (events ! i))"
proof (induction xs arbitrary: events)
  case Nil
  then show ?case by simp
next
  case (Cons x xs)
  from Cons.prems obtain ev evs where
    ev: "unmarshal_Event x zero_Event = Inr ev" and evs: "unmarshal_elements xs = Inr evs"
    and events: "events = ev # evs"
    by (auto split: sum.splits)
  from Cons.IH[OF evs] have len: "length evs = length xs"
    and nth: "\<And>i. i < length xs \<Longrightarrow> unmarshal_Event (xs ! i) zero_Event = Inr (evs ! i)"
    by simp_all
  show ?case
  proof (intro conjI allI impI)
    show "length events = length (x # xs)" using len events by simp
  next
    fix i assume "i < length (x # xs)"
    then show "unmarshal_Event ((x # xs) ! i) zero_Event = Inr (events ! i)"
      using ev nth events by (cases i) simp_all
  qed
qed

lemma Unmarshal_nonempty_array:
  assumes "Unmarshal body = Inr events" and "events \<noteq> []"
  shows "\<exists>xs. body = Valid (JArray xs) \<and> unmarshal_elements xs = Inr events"
proof (cases body)
  case (Invalid msg)
  with assms show ?thesis by (simp add: Unmarshal_def)
next
  case (Valid j)
  with assms show ?thesis
    by (cases j) (simp_all add: Unmarshal_def unmarshal_events_def)
qed

lemma not_accepted_cases:
  "\<not> accepted (Invalid msg)"
  "\<not> is_array j \<Longrightarrow> j \<noteq> JNull \<Longrightarrow> \<not> accepted (Valid j)"
  by (cases j; simp add: accepted_def fits_events_def is_array_def)+

section \<open>Payload fields that are not read\<close>

lemma empty_member_fits: "empty_member k v \<Longrightarrow> fits_Payload_member k v"
  by (auto simp: empty_member_def fits_Payload_member_def fits_string_def fits_Commits_def
      fits_Issue_def fits_Forkee_def fits_struct_def split: if_splits)

lemma agree_refl: "agree tags p p"
  by (simp add: agree_def)

lemma store_Inr:
  "(case x of Inl e \<Rightarrow> Inl e | Inr s \<Rightarrow> Inr (g s)) = Inr y \<Longrightarrow> \<exists>s. x = Inr s \<and> y = g s"
  by (cases x) auto

lemma Payload_member_agree:
  assumes ag: "agree tags p q"
    and p': "Payload_member k v p = Inr p'"
    and q': "Payload_member k v q = Inr q'"
  shows "agree tags p' q'"
proof -
  consider (a) "field ''action'' k"
    | (b) "\<not> field ''action'' k" "field ''ref_type'' k"
    | (c) "\<not> field ''action'' k" "\<not> field ''ref_type'' k" "field ''commits'' k"
    | (d) "\<not> field ''action'' k" "\<not> field ''ref_type'' k" "\<not> field ''commits'' k"
        "field ''issue'' k"
    | (e) "\<not> field ''action'' k" "\<not> field ''ref_type'' k" "\<not> field ''commits'' k"
        "\<not> field ''issue'' k" "field ''forkee'' k"
    | (f) "\<not> field ''action'' k" "\<not> field ''ref_type'' k" "\<not> field ''commits'' k"
        "\<not> field ''issue'' k" "\<not> field ''forkee'' k" "field ''pull_request'' k"
    | (g) "\<not> field ''action'' k" "\<not> field ''ref_type'' k" "\<not> field ''commits'' k"
        "\<not> field ''issue'' k" "\<not> field ''forkee'' k" "\<not> field ''pull_request'' k"
    by blast
  then show ?thesis
  proof cases
    case a
    from p' a obtain s where s: "unmarshal_string v (Action p) = Inr s" "p' = p\<lparr>Action := s\<rparr>"
      by (auto simp: Payload_member_def dest: store_Inr)
    from q' a obtain t where t: "unmarshal_string v (Action q) = Inr t" "q' = q\<lparr>Action := t\<rparr>"
      by (auto simp: Payload_member_def dest: store_Inr)
    have "''action'' \<in> set tags \<Longrightarrow> s = t" using ag s(1) t(1) by (simp add: agree_def)
    with ag show ?thesis by (simp add: agree_def s(2) t(2))
  next
    case b
    from p' b obtain s where s: "unmarshal_string v (RefType p) = Inr s" "p' = p\<lparr>RefType := s\<rparr>"
      by (auto simp: Payload_member_def dest: store_Inr)
    from q' b obtain t where t: "unmarshal_string v (RefType q) = Inr t" "q' = q\<lparr>RefType := t\<rparr>"
      by (auto simp: Payload_member_def dest: store_Inr)
    have "''ref_type'' \<in> set tags \<Longrightarrow> s = t" using ag s(1) t(1) by (simp add: agree_def)
    with ag show ?thesis by (simp add: agree_def s(2) t(2))
  next
    case c
    from p' c obtain s where s: "unmarshal_Commits v (Commits p) = Inr s" "p' = p\<lparr>Commits := s\<rparr>"
      by (auto simp: Payload_member_def dest: store_Inr)
    from q' c obtain t where t: "unmarshal_Commits v (Commits q) = Inr t" "q' = q\<lparr>Commits := t\<rparr>"
      by (auto simp: Payload_member_def dest: store_Inr)
    have "s = t" using s(1) t(1) by (simp add: unmarshal_Commits_def)
    with ag show ?thesis by (simp add: agree_def s(2) t(2))
  next
    case d
    from p' d obtain s where s: "unmarshal_Issue v (Issue p) = Inr s" "p' = p\<lparr>Issue := s\<rparr>"
      by (auto simp: Payload_member_def dest: store_Inr)
    from q' d obtain t where t: "unmarshal_Issue v (Issue q) = Inr t" "q' = q\<lparr>Issue := t\<rparr>"
      by (auto simp: Payload_member_def dest: store_Inr)
    have "''issue'' \<in> set tags \<Longrightarrow> s = t" using ag s(1) t(1) by (simp add: agree_def)
    with ag show ?thesis by (simp add: agree_def s(2) t(2))
  next
    case e
    from p' e obtain s where s: "unmarshal_Forkee v (Forkee p) = Inr s" "p' = p\<lparr>Forkee := s\<rparr>"
      by (auto simp: Payload_member_def dest: store_Inr)
    from q' e obtain t where t: "unmarshal_Forkee v (Forkee q) = Inr t" "q' = q\<lparr>Forkee := t\<rparr>"
      by (auto simp: Payload_member_def dest: store_Inr)
    have "''forkee'' \<in> set tags \<Longrightarrow> s = t" using ag s(1) t(1) by (simp add: agree_def)
    with ag show ?thesis by (simp add: agree_def s(2) t(2))
  next
    case f
    from p' f obtain s where s: "unmarshal_Issue v (PullRequest p) = Inr s"
      "p' = p\<lparr>PullRequest := s\<rparr>"
      by (auto simp: Payload_member_def dest: store_Inr)
    from q' f obtain t where t: "unmarshal_Issue v (PullRequest q) = Inr t"
      "q' = q\<lparr>PullRequest := t\<rparr>"
      by (auto simp: Payload_member_def dest: store_Inr)
    have "''pull_request'' \<in> set tags \<Longrightarrow> s = t" using ag s(1) t(1) by (simp add: agree_def)
    with ag show ?thesis by (simp add: agree_def s(2) t(2))
  next
    case g
    with assms show ?thesis by (simp add: Payload_member_def)
  qed
qed

lemma Payload_member_skip:
  assumes ag: "agree tags p q"
    and p': "Payload_member k v p = Inr p'"
    and k: "\<not> names tags k"
  shows "agree tags p' q"
proof -
  from k have out: "\<And>tag. field tag k \<Longrightarrow> tag \<notin> set tags"
    by (auto simp: names_def list_ex_iff)
  consider (a) "field ''action'' k"
    | (b) "\<not> field ''action'' k" "field ''ref_type'' k"
    | (c) "\<not> field ''action'' k" "\<not> field ''ref_type'' k" "field ''commits'' k"
    | (d) "\<not> field ''action'' k" "\<not> field ''ref_type'' k" "\<not> field ''commits'' k"
        "field ''issue'' k"
    | (e) "\<not> field ''action'' k" "\<not> field ''ref_type'' k" "\<not> field ''commits'' k"
        "\<not> field ''issue'' k" "field ''forkee'' k"
    | (f) "\<not> field ''action'' k" "\<not> field ''ref_type'' k" "\<not> field ''commits'' k"
        "\<not> field ''issue'' k" "\<not> field ''forkee'' k" "field ''pull_request'' k"
    | (g) "\<not> field ''action'' k" "\<not> field ''ref_type'' k" "\<not> field ''commits'' k"
        "\<not> field ''issue'' k" "\<not> field ''forkee'' k" "\<not> field ''pull_request'' k"
    by blast
  then show ?thesis
  proof cases
    case a
    from p' a obtain s where s: "p' = p\<lparr>Action := s\<rparr>"
      by (auto simp: Payload_member_def dest: store_Inr)
    from out[OF a] ag show ?thesis by (simp add: agree_def s)
  next
    case b
    from p' b obtain s where s: "p' = p\<lparr>RefType := s\<rparr>"
      by (auto simp: Payload_member_def dest: store_Inr)
    from out[OF b(2)] ag show ?thesis by (simp add: agree_def s)
  next
    case c
    from p' c obtain s where s: "p' = p\<lparr>Commits := s\<rparr>"
      by (auto simp: Payload_member_def dest: store_Inr)
    from out[OF c(3)] ag show ?thesis by (simp add: agree_def s)
  next
    case d
    from p' d obtain s where s: "p' = p\<lparr>Issue := s\<rparr>"
      by (auto simp: Payload_member_def dest: store_Inr)
    from out[OF d(4)] ag show ?thesis by (simp add: agree_def s)
  next
    case e
    from p' e obtain s where s: "p' = p\<lparr>Forkee := s\<rparr>"
      by (auto simp: Payload_member_def dest: store_Inr)
    from out[OF e(5)] ag show ?thesis by (simp add: agree_def s)
  next
    case f
    from p' f obtain s where s: "p' = p\<lparr>PullRequest := s\<rparr>"
      by (auto simp: Payload_member_def dest: store_Inr)
    from out[OF f(6)] ag show ?thesis by (simp add: agree_def s)
  next
    case g
    with ag p' show ?thesis by (simp add: Payload_member_def)
  qed
qed

lemma members_Cons_Inr:
  "members f ((k, v) # kvs) cur = Inr r \<Longrightarrow> \<exists>cur'. f k v cur = Inr cur' \<and> members f kvs cur' = Inr r"
  by (cases "f k v cur") simp_all

lemma members_agree:
  assumes "members Payload_member kvs p = Inr p'"
    and "members Payload_member (filter (\<lambda>(k, v). names tags k) kvs) q = Inr q'"
    and "agree tags p q"
  shows "agree tags p' q'"
  using assms
proof (induction kvs arbitrary: p q)
  case Nil
  then show ?case by simp
next
  case (Cons kv kvs)
  obtain k v where kv: "kv = (k, v)" by (cases kv)
  from Cons.prems(1) obtain p1 where p1: "Payload_member k v p = Inr p1"
    and rest: "members Payload_member kvs p1 = Inr p'"
    unfolding kv by (blast dest: members_Cons_Inr)
  show ?case
  proof (cases "names tags k")
    case True
    with Cons.prems(2)
    have "members Payload_member ((k, v) # filter (\<lambda>(k, v). names tags k) kvs) q = Inr q'"
      by (simp add: kv)
    then obtain q1 where q1: "Payload_member k v q = Inr q1"
      and restq: "members Payload_member (filter (\<lambda>(k, v). names tags k) kvs) q1 = Inr q'"
      by (blast dest: members_Cons_Inr)
    from Payload_member_agree[OF Cons.prems(3) p1 q1] have "agree tags p1 q1" .
    from Cons.IH[OF rest restq this] show ?thesis .
  next
    case False
    with Cons.prems(2)
    have restq: "members Payload_member (filter (\<lambda>(k, v). names tags k) kvs) q = Inr q'"
      by (simp add: kv)
    from Payload_member_skip[OF Cons.prems(3) p1 False] have "agree tags p1 q" .
    from Cons.IH[OF rest restq this] show ?thesis .
  qed
qed

lemma event_line_agree:
  assumes "agree (reads ty) p q"
  shows "event_line U \<lparr>Type = ty, Repo = r, Payload = p\<rparr> =
         event_line U \<lparr>Type = ty, Repo = r, Payload = q\<rparr>"
  using assms by (simp add: event_line_def reads_def agree_def split: if_splits)

lemma field_iff: "field tag k = (foldName k = foldName tag)"
  by (auto simp: field_def)

lemma payload_key:
  assumes "field ''payload'' k"
  shows "\<not> field ''type'' k" and "\<not> field ''repo'' k"
proof -
  have "foldName ''payload'' \<noteq> foldName ''type''" "foldName ''payload'' \<noteq> foldName ''repo''"
    by code_simp+
  with assms show "\<not> field ''type'' k" and "\<not> field ''repo'' k"
    by (simp_all add: field_iff)
qed

lemma fits_Payload_from_parts:
  assumes "fits_Payload (without_unread_payload tags v)"
    and "unread_empty_payload tags v"
  shows "fits_Payload v"
proof (cases v)
  case (JObject kvs)
  from assms(1) JObject
  have a: "\<forall>(k, v)\<in>set kvs. names tags k \<longrightarrow> fits_Payload_member k v"
    by (auto simp: fits_Payload_def fits_struct_def without_unread_payload_def list_all_iff)
  from assms(2) JObject
  have b: "\<forall>(k, v)\<in>set kvs. \<not> names tags k \<longrightarrow> empty_member k v"
    by (auto simp: unread_empty_payload_def list_all_iff)
  from a b have "\<forall>(k, v)\<in>set kvs. fits_Payload_member k v"
    by (auto dest: empty_member_fits)
  with JObject show ?thesis
    by (simp add: fits_Payload_def fits_struct_def list_all_iff)
qed (use assms(1) in \<open>simp_all add: without_unread_payload_def\<close>)

lemma fits_Event_from_parts:
  assumes "fits_Event (without_unread tags j)"
    and "unread_empty tags j"
  shows "fits_Event j"
proof (cases j)
  case (JObject kvs)
  let ?strip = "\<lambda>(k, v). if field ''payload'' k then (k, without_unread_payload tags v) else (k, v)"
  from assms(1) JObject
  have a: "\<forall>kv\<in>set kvs. (case ?strip kv of (k, v) \<Rightarrow> fits_Event_member k v)"
    by (simp add: fits_Event_def fits_struct_def without_unread_def list_all_iff)
  from assms(2) JObject
  have b: "\<forall>(k, v)\<in>set kvs. field ''payload'' k \<longrightarrow> unread_empty_payload tags v"
    by (auto simp: unread_empty_def list_all_iff split: if_splits)
  have "fits_Event_member k v" if kv: "(k, v) \<in> set kvs" for k v
  proof (cases "field ''payload'' k")
    case False
    with a kv show ?thesis by fastforce
  next
    case True
    with a kv have "fits_Event_member k (without_unread_payload tags v)" by fastforce
    with True payload_key[OF True] have "fits_Payload (without_unread_payload tags v)"
      by (simp add: fits_Event_member_def)
    moreover from b kv True have "unread_empty_payload tags v" by fastforce
    ultimately have "fits_Payload v" by (rule fits_Payload_from_parts)
    with True payload_key[OF True] show ?thesis by (simp add: fits_Event_member_def)
  qed
  with JObject show ?thesis
    by (auto simp: fits_Event_def fits_struct_def list_all_iff)
qed (use assms(1) in \<open>simp_all add: without_unread_def\<close>)

lemma unmarshal_Payload_view:
  assumes p1: "unmarshal_Payload v p = Inr p1"
    and q1: "unmarshal_Payload (without_unread_payload tags v) q = Inr q1"
    and ag: "agree tags p q"
  shows "agree tags p1 q1"
proof (cases v)
  case (JObject kvs)
  from p1 JObject have "members Payload_member kvs p = Inr p1"
    by (simp add: unmarshal_Payload_def unmarshal_struct_def)
  moreover from q1 JObject
  have "members Payload_member (filter (\<lambda>(k, v). names tags k) kvs) q = Inr q1"
    by (simp add: unmarshal_Payload_def unmarshal_struct_def without_unread_payload_def)
  ultimately show ?thesis using ag by (rule members_agree)
qed (use assms in \<open>simp_all add: unmarshal_Payload_def unmarshal_struct_def without_unread_payload_def\<close>)

lemma Event_member_view:
  assumes e1: "Event_member k v ev = Inr ev1"
    and e1': "Event_member k (if field ''payload'' k then without_unread_payload tags v else v) ev'
        = Inr ev1'"
    and sv: "same_view tags ev ev'"
  shows "same_view tags ev1 ev1'"
proof -
  from sv have ty: "Type ev = Type ev'" and rp: "Repo ev = Repo ev'"
    and ag: "agree tags (Payload ev) (Payload ev')"
    by (simp_all add: same_view_def)
  consider (a) "field ''type'' k"
    | (b) "\<not> field ''type'' k" "field ''repo'' k"
    | (c) "\<not> field ''type'' k" "\<not> field ''repo'' k" "field ''payload'' k"
    | (d) "\<not> field ''type'' k" "\<not> field ''repo'' k" "\<not> field ''payload'' k"
    by blast
  then show ?thesis
  proof cases
    case a
    with payload_key(1)[of k] have np: "\<not> field ''payload'' k" by blast
    from e1 a obtain s where s: "unmarshal_string v (Type ev) = Inr s" "ev1 = ev\<lparr>Type := s\<rparr>"
      by (auto simp: Event_member_def dest: store_Inr)
    from e1' a np obtain t where t: "unmarshal_string v (Type ev') = Inr t" "ev1' = ev'\<lparr>Type := t\<rparr>"
      by (auto simp: Event_member_def dest: store_Inr)
    from s(1) t(1) ty have "s = t" by simp
    with rp ag show ?thesis by (simp add: same_view_def s(2) t(2))
  next
    case b
    with payload_key(2)[of k] have np: "\<not> field ''payload'' k" by blast
    from e1 b obtain s where s: "unmarshal_Repo v (Repo ev) = Inr s" "ev1 = ev\<lparr>Repo := s\<rparr>"
      by (auto simp: Event_member_def dest: store_Inr)
    from e1' b np obtain t where t: "unmarshal_Repo v (Repo ev') = Inr t" "ev1' = ev'\<lparr>Repo := t\<rparr>"
      by (auto simp: Event_member_def dest: store_Inr)
    from s(1) t(1) rp have "s = t" by simp
    with ty ag show ?thesis by (simp add: same_view_def s(2) t(2))
  next
    case c
    from e1 c obtain s where s: "unmarshal_Payload v (Payload ev) = Inr s"
      "ev1 = ev\<lparr>Payload := s\<rparr>"
      by (auto simp: Event_member_def dest: store_Inr)
    from e1' c obtain t where
      t: "unmarshal_Payload (without_unread_payload tags v) (Payload ev') = Inr t"
      "ev1' = ev'\<lparr>Payload := t\<rparr>"
      by (auto simp: Event_member_def dest: store_Inr)
    from unmarshal_Payload_view[OF s(1) t(1) ag] have "agree tags s t" .
    with ty rp show ?thesis by (simp add: same_view_def s(2) t(2))
  next
    case d
    with e1 e1' sv show ?thesis by (simp add: Event_member_def)
  qed
qed

lemma Event_members_view:
  assumes "members Event_member kvs ev = Inr ev1"
    and "members Event_member
        (map (\<lambda>(k, v). if field ''payload'' k then (k, without_unread_payload tags v) else (k, v)) kvs)
        ev' = Inr ev1'"
    and "same_view tags ev ev'"
  shows "same_view tags ev1 ev1'"
  using assms
proof (induction kvs arbitrary: ev ev')
  case Nil
  then show ?case by simp
next
  case (Cons kv kvs)
  let ?strip = "\<lambda>(k, v). if field ''payload'' k then (k, without_unread_payload tags v) else (k, v)"
  obtain k v where kv: "kv = (k, v)" by (cases kv)
  from Cons.prems(1) obtain e where e: "Event_member k v ev = Inr e"
    and rest: "members Event_member kvs e = Inr ev1"
    unfolding kv by (blast dest: members_Cons_Inr)
  from Cons.prems(2)
  have "members Event_member
      ((k, if field ''payload'' k then without_unread_payload tags v else v) # map ?strip kvs) ev' =
      Inr ev1'"
    by (cases "field ''payload'' k") (simp_all add: kv)
  then obtain e' where
    e': "Event_member k (if field ''payload'' k then without_unread_payload tags v else v) ev' = Inr e'"
    and rest': "members Event_member (map ?strip kvs) e' = Inr ev1'"
    by (blast dest: members_Cons_Inr)
  from Event_member_view[OF e e' Cons.prems(3)] have "same_view tags e e'" .
  from Cons.IH[OF rest rest' this] show ?case .
qed

lemma unmarshal_Event_view:
  assumes ev: "unmarshal_Event j zero_Event = Inr ev"
    and ev': "unmarshal_Event (without_unread tags j) zero_Event = Inr ev'"
  shows "same_view tags ev ev'"
proof (cases j)
  case (JObject kvs)
  from ev JObject have "members Event_member kvs zero_Event = Inr ev"
    by (simp add: unmarshal_Event_def unmarshal_struct_def)
  moreover from ev' JObject have "members Event_member
      (map (\<lambda>(k, v). if field ''payload'' k then (k, without_unread_payload tags v) else (k, v)) kvs)
      zero_Event = Inr ev'"
    by (simp add: unmarshal_Event_def unmarshal_struct_def without_unread_def)
  moreover have "same_view tags zero_Event zero_Event"
    by (simp add: same_view_def agree_refl)
  ultimately show ?thesis by (rule Event_members_view)
next
  case JNull
  with ev ev' show ?thesis
    by (simp add: unmarshal_Event_def unmarshal_struct_def without_unread_def same_view_def
        agree_refl)
qed (use ev in \<open>simp_all add: unmarshal_Event_def unmarshal_struct_def\<close>)

lemma event_line_same_view:
  assumes "same_view (reads (Type ev)) ev ev'"
  shows "event_line U ev = event_line U ev'"
proof -
  from assms have all: "Type ev = Type ev' \<and> Repo ev = Repo ev' \<and>
      agree (reads (Type ev)) (Payload ev) (Payload ev')"
    unfolding same_view_def .
  then have ty: "Type ev' = Type ev" by (rule conjunct1[THEN sym])
  from all have rp: "Repo ev' = Repo ev" by (rule conjunct2[THEN conjunct1, THEN sym])
  from all have ag: "agree (reads (Type ev)) (Payload ev) (Payload ev')"
    by (rule conjunct2[THEN conjunct2])
  have "event_line U \<lparr>Type = Type ev, Repo = Repo ev, Payload = Payload ev\<rparr> =
        event_line U \<lparr>Type = Type ev, Repo = Repo ev, Payload = Payload ev'\<rparr>"
    using ag by (rule event_line_agree)
  moreover have "ev = \<lparr>Type = Type ev, Repo = Repo ev, Payload = Payload ev\<rparr>" by simp
  moreover have "ev' = \<lparr>Type = Type ev, Repo = Repo ev, Payload = Payload ev'\<rparr>"
    using ty rp by (cases ev') simp
  ultimately show ?thesis by simp
qed

section \<open>A payload without commits\<close>

lemma Payload_member_no_commits:
  assumes p': "Payload_member k v p = Inr p'"
    and null: "field ''commits'' k \<longrightarrow> v = JNull"
    and nil: "Commits p = []"
  shows "Commits p' = []"
proof -
  consider (a) "field ''action'' k"
    | (b) "\<not> field ''action'' k" "field ''ref_type'' k"
    | (c) "\<not> field ''action'' k" "\<not> field ''ref_type'' k" "field ''commits'' k"
    | (d) "\<not> field ''action'' k" "\<not> field ''ref_type'' k" "\<not> field ''commits'' k"
        "field ''issue'' k"
    | (e) "\<not> field ''action'' k" "\<not> field ''ref_type'' k" "\<not> field ''commits'' k"
        "\<not> field ''issue'' k" "field ''forkee'' k"
    | (f) "\<not> field ''action'' k" "\<not> field ''ref_type'' k" "\<not> field ''commits'' k"
        "\<not> field ''issue'' k" "\<not> field ''forkee'' k" "field ''pull_request'' k"
    | (g) "\<not> field ''action'' k" "\<not> field ''ref_type'' k" "\<not> field ''commits'' k"
        "\<not> field ''issue'' k" "\<not> field ''forkee'' k" "\<not> field ''pull_request'' k"
    by blast
  then show ?thesis
  proof cases
    case a
    from p' a obtain s where "p' = p\<lparr>Action := s\<rparr>"
      by (auto simp: Payload_member_def dest: store_Inr)
    with nil show ?thesis by simp
  next
    case b
    from p' b obtain s where "p' = p\<lparr>RefType := s\<rparr>"
      by (auto simp: Payload_member_def dest: store_Inr)
    with nil show ?thesis by simp
  next
    case c
    with null have "v = JNull" by simp
    with p' c have "p' = p\<lparr>Commits := []\<rparr>"
      by (simp add: Payload_member_def unmarshal_Commits_def)
    then show ?thesis by simp
  next
    case d
    from p' d obtain s where "p' = p\<lparr>Issue := s\<rparr>"
      by (auto simp: Payload_member_def dest: store_Inr)
    with nil show ?thesis by simp
  next
    case e
    from p' e obtain s where "p' = p\<lparr>Forkee := s\<rparr>"
      by (auto simp: Payload_member_def dest: store_Inr)
    with nil show ?thesis by simp
  next
    case f
    from p' f obtain s where "p' = p\<lparr>PullRequest := s\<rparr>"
      by (auto simp: Payload_member_def dest: store_Inr)
    with nil show ?thesis by simp
  next
    case g
    with p' nil show ?thesis by (simp add: Payload_member_def)
  qed
qed

lemma members_no_commits:
  assumes "members Payload_member kvs p = Inr p'"
    and "list_all (\<lambda>(k, v). field ''commits'' k \<longrightarrow> v = JNull) kvs"
    and "Commits p = []"
  shows "Commits p' = []"
  using assms
proof (induction kvs arbitrary: p)
  case Nil
  then show ?case by simp
next
  case (Cons kv kvs)
  obtain k v where kv: "kv = (k, v)" by (cases kv)
  from Cons.prems(1) obtain p1 where p1: "Payload_member k v p = Inr p1"
    and rest: "members Payload_member kvs p1 = Inr p'"
    unfolding kv by (blast dest: members_Cons_Inr)
  from Cons.prems(2) have "field ''commits'' k \<longrightarrow> v = JNull"
    and tl: "list_all (\<lambda>(k, v). field ''commits'' k \<longrightarrow> v = JNull) kvs"
    by (simp_all add: kv)
  from Payload_member_no_commits[OF p1 this(1) Cons.prems(3)] have "Commits p1 = []" .
  from Cons.IH[OF rest tl this] show ?case .
qed

lemma unmarshal_Payload_no_commits:
  assumes "unmarshal_Payload v p = Inr p'"
    and "omits_commits_payload v"
    and "Commits p = []"
  shows "Commits p' = []"
proof (cases v)
  case (JObject kvs)
  with assms show ?thesis
    by (auto simp: unmarshal_Payload_def unmarshal_struct_def omits_commits_payload_def
        intro: members_no_commits)
qed (use assms in \<open>simp_all add: unmarshal_Payload_def unmarshal_struct_def\<close>)

lemma Event_member_no_commits:
  assumes ev': "Event_member k v ev = Inr ev'"
    and om: "field ''payload'' k \<longrightarrow> omits_commits_payload v"
    and nil: "Commits (Payload ev) = []"
  shows "Commits (Payload ev') = []"
proof -
  consider (a) "field ''type'' k"
    | (b) "\<not> field ''type'' k" "field ''repo'' k"
    | (c) "\<not> field ''type'' k" "\<not> field ''repo'' k" "field ''payload'' k"
    | (d) "\<not> field ''type'' k" "\<not> field ''repo'' k" "\<not> field ''payload'' k"
    by blast
  then show ?thesis
  proof cases
    case a
    from ev' a obtain s where "ev' = ev\<lparr>Type := s\<rparr>"
      by (auto simp: Event_member_def dest: store_Inr)
    with nil show ?thesis by simp
  next
    case b
    from ev' b obtain s where "ev' = ev\<lparr>Repo := s\<rparr>"
      by (auto simp: Event_member_def dest: store_Inr)
    with nil show ?thesis by simp
  next
    case c
    from ev' c obtain p where p: "unmarshal_Payload v (Payload ev) = Inr p"
      and "ev' = ev\<lparr>Payload := p\<rparr>"
      by (auto simp: Event_member_def dest: store_Inr)
    moreover from om c have "omits_commits_payload v" by simp
    from unmarshal_Payload_no_commits[OF p this nil] have "Commits p = []" .
    ultimately show ?thesis by simp
  next
    case d
    with ev' nil show ?thesis by (simp add: Event_member_def)
  qed
qed

lemma Event_members_no_commits:
  assumes "members Event_member kvs ev = Inr ev'"
    and "list_all (\<lambda>(k, v). field ''payload'' k \<longrightarrow> omits_commits_payload v) kvs"
    and "Commits (Payload ev) = []"
  shows "Commits (Payload ev') = []"
  using assms
proof (induction kvs arbitrary: ev)
  case Nil
  then show ?case by simp
next
  case (Cons kv kvs)
  obtain k v where kv: "kv = (k, v)" by (cases kv)
  from Cons.prems(1) obtain ev1 where ev1: "Event_member k v ev = Inr ev1"
    and rest: "members Event_member kvs ev1 = Inr ev'"
    unfolding kv by (blast dest: members_Cons_Inr)
  from Cons.prems(2) have "field ''payload'' k \<longrightarrow> omits_commits_payload v"
    and tl: "list_all (\<lambda>(k, v). field ''payload'' k \<longrightarrow> omits_commits_payload v) kvs"
    by (simp_all add: kv)
  from Event_member_no_commits[OF ev1 this(1) Cons.prems(3)] have "Commits (Payload ev1) = []" .
  from Cons.IH[OF rest tl this] show ?case .
qed

lemma fmt_d_0: "fmt_d 0 = ''0''"
  by code_simp

section \<open>The claims\<close>

text \<open>
  Claim C1, as amended. For every issues, watch and pull_request event, the line written
  holds \<open>strings.Title\<close> of the action: the action is read as runes, the first rune and
  every rune that follows a separator are replaced by their title case, and every other
  rune is kept. When no separator is followed by another rune, only the first rune is
  replaced: the result is the action with its first letter capitalised and the rest
  unchanged. On an ASCII action the result has the bytes of the action, but that a
  lower-case letter at the start or after a separator is 32 less, the upper-case letter.
\<close>

theorem action_title_cased:
  assumes "a = Action (Payload ev)" and "rs = runes a"
  shows "(Type ev = ''IssuesEvent'' \<longrightarrow>
       event_line U ev = ''- '' @ strings_Title U a @ '' an issue in '' @ Name (Repo ev) @ '': '' @
         [CHR 0x22] @ Title (Issue (Payload ev)) @ [CHR 0x22] @ ''\<newline>'') \<and>
    (Type ev = ''WatchEvent'' \<longrightarrow>
       event_line U ev = ''- '' @ strings_Title U a @ '' watching '' @ Name (Repo ev) @ ''\<newline>'') \<and>
    (Type ev = ''PullRequestEvent'' \<longrightarrow>
       event_line U ev = ''- '' @ strings_Title U a @ '' a pull request in '' @ Name (Repo ev) @
         '': '' @ [CHR 0x22] @ Title (PullRequest (Payload ev)) @ [CHR 0x22] @ ''\<newline>'') \<and>
    strings_Title U a = concat (map EncodeRune (Title_from U 32 rs)) \<and>
    length (Title_from U 32 rs) = length rs \<and>
    (\<forall>i<length rs. Title_from U 32 rs ! i =
       (if i = 0 \<or> isSeparator U (rs ! (i - 1)) then ToTitle U (rs ! i) else rs ! i)) \<and>
    ((\<forall>i. Suc i < length rs \<longrightarrow> \<not> isSeparator U (rs ! i)) \<longrightarrow>
       strings_Title U a = capitalize_first U a) \<and>
    (ascii a \<longrightarrow>
       length (strings_Title U a) = length a \<and>
       (\<forall>i<length a. byte (strings_Title U a ! i) =
          (if (i = 0 \<or> isSeparator U (byte (a ! (i - 1)))) \<and> isLower (a ! i)
           then byte (a ! i) - 32 else byte (a ! i))))"
proof -
  have lines: "(Type ev = ''IssuesEvent'' \<longrightarrow>
       event_line U ev = ''- '' @ strings_Title U a @ '' an issue in '' @ Name (Repo ev) @ '': '' @
         [CHR 0x22] @ Title (Issue (Payload ev)) @ [CHR 0x22] @ ''\<newline>'') \<and>
    (Type ev = ''WatchEvent'' \<longrightarrow>
       event_line U ev = ''- '' @ strings_Title U a @ '' watching '' @ Name (Repo ev) @ ''\<newline>'') \<and>
    (Type ev = ''PullRequestEvent'' \<longrightarrow>
       event_line U ev = ''- '' @ strings_Title U a @ '' a pull request in '' @ Name (Repo ev) @
         '': '' @ [CHR 0x22] @ Title (PullRequest (Payload ev)) @ [CHR 0x22] @ ''\<newline>'')"
    using assms(1) by (simp add: event_line_def)
  have enc: "strings_Title U a = concat (map EncodeRune (Title_from U 32 rs))"
    using assms(2) by (simp add: strings_Title_def)
  have len: "length (Title_from U 32 rs) = length rs"
    by (rule length_Title_from)
  have nth: "\<forall>i<length rs. Title_from U 32 rs ! i =
       (if i = 0 \<or> isSeparator U (rs ! (i - 1)) then ToTitle U (rs ! i) else rs ! i)"
    by (simp add: nth_Title_from isSeparator_space)
  have tok: "(\<forall>i. Suc i < length rs \<longrightarrow> \<not> isSeparator U (rs ! i)) \<longrightarrow>
       strings_Title U a = capitalize_first U a"
    using strings_Title_single_token[where s = a and U = U] assms(2) by simp
  have asc: "ascii a \<longrightarrow>
       length (strings_Title U a) = length a \<and>
       (\<forall>i<length a. byte (strings_Title U a ! i) =
          (if (i = 0 \<or> isSeparator U (byte (a ! (i - 1)))) \<and> isLower (a ! i)
           then byte (a ! i) - 32 else byte (a ! i)))"
    using strings_Title_ascii_bytes[where s = a and U = U] by blast
  from lines enc len nth tok asc show ?thesis by blast
qed

theorem action_title_cased_witness:
  "event_line sample_unicode \<lparr>Type = ''IssuesEvent'', Repo = \<lparr>Name = ''a/b''\<rparr>,
       Payload = zero_Payload\<lparr>Action := ''opened'', Issue := \<lparr>Title = ''Bug''\<rparr>\<rparr>\<rparr> =
     ''- Opened an issue in a/b: '' @ [CHR 0x22] @ ''Bug'' @ [CHR 0x22] @ ''\<newline>'' \<and>
   event_line sample_unicode \<lparr>Type = ''WatchEvent'', Repo = \<lparr>Name = ''a/b''\<rparr>,
       Payload = zero_Payload\<lparr>Action := [CHR 0xC3, CHR 0xA9, CHR ''l'', CHR ''a'', CHR ''n'']\<rparr>\<rparr> =
     ''- '' @ [CHR 0xC3, CHR 0x89, CHR ''l'', CHR ''a'', CHR ''n''] @ '' watching a/b\<newline>''"
proof -
  let ?ev = "\<lparr>Type = ''IssuesEvent'', Repo = \<lparr>Name = ''a/b''\<rparr>,
       Payload = zero_Payload\<lparr>Action := ''opened'', Issue := \<lparr>Title = ''Bug''\<rparr>\<rparr>\<rparr>"
  let ?elan = "[CHR 0xC3, CHR 0xA9, CHR ''l'', CHR ''a'', CHR ''n'']"
  let ?ev2 = "\<lparr>Type = ''WatchEvent'', Repo = \<lparr>Name = ''a/b''\<rparr>,
       Payload = zero_Payload\<lparr>Action := ?elan\<rparr>\<rparr>"
  have t: "strings_Title sample_unicode ''opened'' = ''Opened''" by code_simp
  have t2: "strings_Title sample_unicode ?elan = [CHR 0xC3, CHR 0x89, CHR ''l'', CHR ''a'', CHR ''n'']"
    by code_simp
  have p: "Action (Payload ?ev) = ''opened''" "Title (Issue (Payload ?ev)) = ''Bug''"
    "Action (Payload ?ev2) = ?elan"
    by (simp_all add: zero_Payload_def)
  from action_title_cased[where U = sample_unicode and ev = ?ev, OF p(1)[symmetric] refl] p(2)
  have "event_line sample_unicode ?ev =
      ''- '' @ strings_Title sample_unicode ''opened'' @ '' an issue in '' @ Name (Repo ?ev) @
      '': '' @ [CHR 0x22] @ ''Bug'' @ [CHR 0x22] @ ''\<newline>''"
    by simp
  moreover
  from action_title_cased[where U = sample_unicode and ev = ?ev2, OF p(3)[symmetric] refl]
  have "event_line sample_unicode ?ev2 =
      ''- '' @ strings_Title sample_unicode ?elan @ '' watching '' @ Name (Repo ?ev2) @ ''\<newline>''"
    by simp
  ultimately show ?thesis using t t2 by simp
qed

text \<open>
  The claim as first stated asks for the first letter only. The action \<open>not planned\<close>
  holds a space, so \<open>strings.Title\<close> also upper-cases the letter after it: the line
  reads \<open>Not Planned\<close>, where first-letter capitalisation gives \<open>Not planned\<close>.
\<close>

theorem multi_word_action_counterexample:
  "event_line sample_unicode \<lparr>Type = ''IssuesEvent'', Repo = \<lparr>Name = ''a/b''\<rparr>,
       Payload = zero_Payload\<lparr>Action := ''not planned'', Issue := \<lparr>Title = ''Bug''\<rparr>\<rparr>\<rparr> =
     ''- Not Planned an issue in a/b: '' @ [CHR 0x22] @ ''Bug'' @ [CHR 0x22] @ ''\<newline>'' \<and>
   capitalize_first sample_unicode ''not planned'' = ''Not planned'' \<and>
   strings_Title sample_unicode ''not planned'' \<noteq> capitalize_first sample_unicode ''not planned''"
  by code_simp

text \<open>
  Claim C2. For every push event of a successfully decoded 200 response, the line written
  is \<open>- Pushed {count} commit(s) to {repo}\<close>, where the count is the decimal numeral of
  the length of the event's commits sequence and the repository is the event's
  repository name, and that line is part of the output. A push event with three commit
  entries on \<open>x/y\<close> gives \<open>- Pushed 3 commit(s) to x/y\<close>.
\<close>

theorem push_event_line:
  assumes "Get (apiURL username) = Inr resp"
    and "StatusCode resp = 200"
    and "Body resp = Inr body"
    and "Unmarshal body = Inr events"
    and "ev \<in> set events"
    and "Type ev = ''PushEvent''"
  shows "\<exists>count. numeral_of count (length (Commits (Payload ev))) \<and>
    event_line U ev = ''- Pushed '' @ count @ '' commit(s) to '' @ Name (Repo ev) @ ''\<newline>'' \<and>
    (\<exists>before after. getGithubActivity U Get Error username =
       before @ ''- Pushed '' @ count @ '' commit(s) to '' @ Name (Repo ev) @ ''\<newline>'' @ after)"
proof -
  let ?count = "fmt_d (int (length (Commits (Payload ev))))"
  have num: "numeral_of ?count (length (Commits (Payload ev)))"
    by (rule numeral_of_fmt_d)
  from assms(6) have line:
    "event_line U ev = ''- Pushed '' @ ?count @ '' commit(s) to '' @ Name (Repo ev) @ ''\<newline>''"
    by (simp add: event_line_def)
  from line_in_output[where U = U and Get = Get and username = username and Error = Error,
      OF assms(1-5)] line
  have "\<exists>before after. getGithubActivity U Get Error username =
       before @ ''- Pushed '' @ ?count @ '' commit(s) to '' @ Name (Repo ev) @ ''\<newline>'' @ after"
    by simp
  with num line show ?thesis by blast
qed

theorem push_event_line_witness:
  "Unmarshal (Valid (JArray [JObject [(''type'', JString ''PushEvent''),
      (''repo'', JObject [(''name'', JString ''x/y'')]),
      (''payload'', JObject [(''commits'',
         JArray [JObject [(''sha'', JString ''a1'')], JObject [(''sha'', JString ''b2'')],
                 JObject [(''sha'', JString ''c3'')]])])]])) =
     Inr [\<lparr>Type = ''PushEvent'', Repo = \<lparr>Name = ''x/y''\<rparr>,
           Payload = zero_Payload\<lparr>Commits := [JObject [(''sha'', JString ''a1'')],
             JObject [(''sha'', JString ''b2'')], JObject [(''sha'', JString ''c3'')]]\<rparr>\<rparr>] \<and>
   numeral_of ''3'' 3 \<and>
   event_line sample_unicode \<lparr>Type = ''PushEvent'', Repo = \<lparr>Name = ''x/y''\<rparr>,
           Payload = zero_Payload\<lparr>Commits := [JObject [(''sha'', JString ''a1'')],
             JObject [(''sha'', JString ''b2'')], JObject [(''sha'', JString ''c3'')]]\<rparr>\<rparr> =
     ''- Pushed 3 commit(s) to x/y\<newline>''"
proof -
  let ?cs = "[JObject [(''sha'', JString ''a1'')], JObject [(''sha'', JString ''b2'')],
                 JObject [(''sha'', JString ''c3'')]]"
  let ?ev = "\<lparr>Type = ''PushEvent'', Repo = \<lparr>Name = ''x/y''\<rparr>,
           Payload = zero_Payload\<lparr>Commits := ?cs\<rparr>\<rparr>"
  let ?body = "Valid (JArray [JObject [(''type'', JString ''PushEvent''),
      (''repo'', JObject [(''name'', JString ''x/y'')]),
      (''payload'', JObject [(''commits'', JArray ?cs)])]])"
  let ?resp = "\<lparr>StatusCode = 200, Body = Inr ?body\<rparr>"
  have dec: "Unmarshal ?body = Inr [?ev]" by code_simp
  have three: "numeral_of ''3'' 3" by code_simp
  have len: "length (Commits (Payload ?ev)) = 3" by (simp add: zero_Payload_def)
  have a: "serve ?resp (apiURL ''octocat'') = Inr ?resp" "StatusCode ?resp = 200"
    "Body ?resp = Inr ?body" "?ev \<in> set [?ev]" "Type ?ev = ''PushEvent''"
    by simp_all
  from push_event_line[where U = sample_unicode and Get = "serve ?resp" and username = "''octocat''"
      and Error = error_text, OF a(1-3) dec a(4,5)]
  obtain count where c: "numeral_of count (length (Commits (Payload ?ev)))"
    and line: "event_line sample_unicode ?ev =
      ''- Pushed '' @ count @ '' commit(s) to '' @ Name (Repo ?ev) @ ''\<newline>''"
    by blast
  from c have "numeral_of count 3" by (simp only: len)
  then have "count = ''3''" using three by (rule numeral_of_unique)
  with line have "event_line sample_unicode ?ev = ''- Pushed 3 commit(s) to x/y\<newline>''"
    by simp
  with dec three show ?thesis by simp
qed

text \<open>
  Claim C3, as amended. For every 200 response whose body \<open>json.Unmarshal\<close> does not
  accept as a list of events (bytes that are not JSON; a value that is neither an array
  nor \<open>null\<close>; an element that is neither an object nor \<open>null\<close>; a member that names
  a field and holds a value of another JSON type than the field's; a number in a commits
  entry outside the range of \<open>float64\<close>), decoding returns an error and the whole output
  is the one parse error message: no header and no event line is written.
\<close>

theorem rejected_body_output:
  assumes "Get (apiURL username) = Inr resp"
    and "StatusCode resp = 200"
    and "Body resp = Inr body"
    and "\<not> accepted body"
  shows "\<exists>err. Unmarshal body = Inl err \<and>
    getGithubActivity U Get Error username =
      ''Error: Failed to parse the response from the GitHub API. Reason: '' @ Error err @
      ''\<newline>''"
proof -
  from assms(4) have "isl (Unmarshal body)" by (simp add: isl_Unmarshal)
  then obtain err where err: "Unmarshal body = Inl err" by (cases "Unmarshal body") simp_all
  with assms(1-3) have "getGithubActivity U Get Error username =
      ''Error: Failed to parse the response from the GitHub API. Reason: '' @ Error err @
      ''\<newline>''"
    by (simp add: getGithubActivity_def)
  with err show ?thesis by blast
qed

theorem rejected_body_output_witness:
  "\<not> accepted (Valid (JObject [(''message'', JString ''Not Found'')])) \<and>
   getGithubActivity sample_unicode
     (serve \<lparr>StatusCode = 200, Body = Inr (Valid (JObject [(''message'', JString ''Not Found'')]))\<rparr>)
     error_text ''octocat'' =
   ''Error: Failed to parse the response from the GitHub API. Reason: json: cannot unmarshal object into Go value of type []main.Event\<newline>''"
proof -
  let ?j = "JObject [(''message'', JString ''Not Found'')]"
  let ?resp = "\<lparr>StatusCode = 200, Body = Inr (Valid ?j)\<rparr>"
  have n: "\<not> accepted (Valid ?j)" by (simp add: accepted_def fits_events_def)
  have dec: "Unmarshal (Valid ?j) = Inl (UnmarshalTypeError ?j ''[]main.Event'')"
    by (simp add: Unmarshal_def unmarshal_events_def)
  have shown: "error_text (UnmarshalTypeError ?j ''[]main.Event'') =
      ''json: cannot unmarshal object into Go value of type []main.Event''"
    by (simp add: error_text_def kind_def)
  from rejected_body_output[where U = sample_unicode and Get = "serve ?resp" and username = "''octocat''"
      and resp = ?resp and body = "Valid ?j" and Error = error_text, OF _ _ _ n]
  show ?thesis using n dec shown by simp
qed

text \<open>
  The claim as first stated covers every body that is not a JSON array of event records.
  The body \<open>null\<close> is no array, yet the decoder accepts it and leaves the slice nil:
  the run writes the header and the message for no activity, and no parse error.
\<close>

theorem null_body_counterexample:
  "\<not> is_array JNull \<and>
   getGithubActivity sample_unicode (serve \<lparr>StatusCode = 200, Body = Inr (Valid JNull)\<rparr>)
     error_text ''octocat'' =
   ''Recent Activity for octocat:\<newline>\<newline>No recent public activity found.\<newline>''"
  by (simp add: is_array_def getGithubActivity_def Unmarshal_def unmarshal_events_def)

text \<open>
  Claim C4. For every HTTP 404 response, the whole output of the run is one error
  message that names the requested username: no header line and no event line is
  written, and the run ends there.
\<close>

theorem not_found_output:
  assumes "Get (apiURL username) = Inr resp"
    and "StatusCode resp = 404"
  shows "getGithubActivity U Get Error username =
      ''Error: Could not find GitHub user '' @ [CHR 0x27] @ username @ [CHR 0x27] @ ''.\<newline>''"
  using assms by (simp add: getGithubActivity_def)

theorem not_found_output_witness:
  "getGithubActivity sample_unicode (serve \<lparr>StatusCode = 404, Body = Inr (Valid (JArray []))\<rparr>)
     error_text ''octocat'' =
   ''Error: Could not find GitHub user '' @ [CHR 0x27] @ ''octocat'' @ [CHR 0x27] @ ''.\<newline>''"
  using not_found_output[where U = sample_unicode and Get = "serve \<lparr>StatusCode = 404, Body = Inr (Valid (JArray []))\<rparr>"
      and username = "''octocat''" and resp = "\<lparr>StatusCode = 404, Body = Inr (Valid (JArray []))\<rparr>"
      and Error = error_text]
  by simp

text \<open>
  Claim C5. For every HTTP response whose status code is neither 200 nor 404, the whole
  output of the run is one error message that carries the decimal numeral of the status
  code; no header line and no event line is written.
\<close>

theorem other_status_output:
  assumes "Get (apiURL username) = Inr resp"
    and "StatusCode resp \<noteq> 200"
    and "StatusCode resp \<noteq> 404"
  shows "\<exists>code. int_numeral_of code (StatusCode resp) \<and>
    getGithubActivity U Get Error username =
      ''Error: Received status code '' @ code @ '' from GitHub API.\<newline>''"
proof -
  have "int_numeral_of (fmt_d (StatusCode resp)) (StatusCode resp)"
    by (rule int_numeral_of_fmt_d)
  moreover from assms have "getGithubActivity U Get Error username =
      ''Error: Received status code '' @ fmt_d (StatusCode resp) @ '' from GitHub API.\<newline>''"
    by (simp add: getGithubActivity_def)
  ultimately show ?thesis by blast
qed

theorem other_status_output_witness:
  "numeral_of ''500'' 500 \<and>
   getGithubActivity sample_unicode (serve \<lparr>StatusCode = 500, Body = Inr (Valid (JArray []))\<rparr>)
     error_text ''octocat'' =
   ''Error: Received status code 500 from GitHub API.\<newline>''"
proof -
  let ?resp = "\<lparr>StatusCode = 500, Body = Inr (Valid (JArray []))\<rparr>"
  have n: "numeral_of ''500'' 500" by code_simp
  have a: "serve ?resp (apiURL ''octocat'') = Inr ?resp" "StatusCode ?resp \<noteq> 200"
    "StatusCode ?resp \<noteq> 404"
    by simp_all
  from other_status_output[where U = sample_unicode and Get = "serve ?resp"
      and username = "''octocat''" and Error = error_text, OF a]
  obtain code where c: "int_numeral_of code (StatusCode ?resp)"
    and out: "getGithubActivity sample_unicode (serve ?resp) error_text ''octocat'' =
      ''Error: Received status code '' @ code @ '' from GitHub API.\<newline>''"
    by blast
  from c have "numeral_of code 500" by (simp add: int_numeral_of_def)
  then have "code = ''500''" using n by (rule numeral_of_unique)
  with out n show ?thesis by simp
qed

text \<open>
  Claim C6. For every 200 response whose body is the empty JSON array, decoding succeeds
  with no event, and the output is the header line, a blank line and the message
  \<open>No recent public activity found.\<close>, with no event line; it is not the parse error
  message.
\<close>

theorem empty_array_output:
  assumes "Get (apiURL username) = Inr resp"
    and "StatusCode resp = 200"
    and "Body resp = Inr (Valid (JArray []))"
  shows "Unmarshal (Valid (JArray [])) = Inr [] \<and>
    getGithubActivity U Get Error username =
      ''Recent Activity for '' @ username @ '':\<newline>\<newline>'' @
      ''No recent public activity found.\<newline>''"
  using assms by (simp add: getGithubActivity_def Unmarshal_def unmarshal_events_def)

theorem empty_array_output_witness:
  "getGithubActivity sample_unicode (serve \<lparr>StatusCode = 200, Body = Inr (Valid (JArray []))\<rparr>)
     error_text ''octocat'' =
   ''Recent Activity for octocat:\<newline>\<newline>No recent public activity found.\<newline>''"
  using empty_array_output[where U = sample_unicode and Get = "serve \<lparr>StatusCode = 200, Body = Inr (Valid (JArray []))\<rparr>"
      and username = "''octocat''" and resp = "\<lparr>StatusCode = 200, Body = Inr (Valid (JArray []))\<rparr>"
      and Error = error_text]
  by simp

text \<open>
  Claim C7. For every decoded event whose category tag is none of the eight recognized
  ones, the line written is \<open>- Performed a {category} on {repo}\<close>, with the event's
  tag and repository name as they were decoded, and that line is part of the output.
\<close>

theorem unrecognized_category_line:
  assumes "Get (apiURL username) = Inr resp"
    and "StatusCode resp = 200"
    and "Body resp = Inr body"
    and "Unmarshal body = Inr events"
    and "ev \<in> set events"
    and "Type ev \<notin> {''PushEvent'', ''CreateEvent'', ''IssuesEvent'', ''IssueCommentEvent'',
           ''WatchEvent'', ''ForkEvent'', ''PullRequestEvent'', ''PublicEvent''}"
  shows "event_line U ev = ''- Performed a '' @ Type ev @ '' on '' @ Name (Repo ev) @ ''\<newline>'' \<and>
    (\<exists>before after. getGithubActivity U Get Error username =
       before @ ''- Performed a '' @ Type ev @ '' on '' @ Name (Repo ev) @ ''\<newline>'' @ after)"
proof -
  from assms(6) have line:
    "event_line U ev = ''- Performed a '' @ Type ev @ '' on '' @ Name (Repo ev) @ ''\<newline>''"
    by (simp add: event_line_def)
  from line_in_output[where U = U and Get = Get and username = username and Error = Error, OF assms(1-5)] line show ?thesis by simp
qed

theorem unrecognized_category_line_witness:
  "event_line sample_unicode \<lparr>Type = ''GollumEvent'', Repo = \<lparr>Name = ''a/b''\<rparr>, Payload = zero_Payload\<rparr> =
     ''- Performed a GollumEvent on a/b\<newline>''"
proof -
  let ?ev = "\<lparr>Type = ''GollumEvent'', Repo = \<lparr>Name = ''a/b''\<rparr>, Payload = zero_Payload\<rparr>"
  let ?body = "Valid (JArray [JObject [(''type'', JString ''GollumEvent''),
      (''repo'', JObject [(''name'', JString ''a/b'')])]])"
  let ?resp = "\<lparr>StatusCode = 200, Body = Inr ?body\<rparr>"
  have dec: "Unmarshal ?body = Inr [?ev]" by code_simp
  have "event_line sample_unicode ?ev = ''- Performed a '' @ Type ?ev @ '' on '' @ Name (Repo ?ev) @ ''\<newline>''"
    using unrecognized_category_line[where U = sample_unicode and Get = "serve ?resp" and username = "''octocat''"
        and resp = ?resp and body = ?body and events = "[?ev]" and ev = ?ev and Error = error_text]
      dec
    by simp
  then show ?thesis by simp
qed

text \<open>
  Claim C8, as amended. For every successfully decoded list of N events, N at least one,
  the output is the header followed by one text per event, in the order of the events,
  which is the order of the elements of the JSON array. Each text is \<open>- \<close>, the event's
  template with its operands, and a newline. The event part holds N newlines and those
  inside the operands; whenever no operand of any event holds a newline, it is exactly N
  lines, and they are the texts of the events in order.
\<close>

theorem one_line_per_event_in_order:
  assumes "Get (apiURL username) = Inr resp"
    and "StatusCode resp = 200"
    and "Body resp = Inr body"
    and "Unmarshal body = Inr events"
    and "events \<noteq> []"
  shows "getGithubActivity U Get Error username =
      ''Recent Activity for '' @ username @ '':\<newline>\<newline>'' @
      concat (map (event_line U) events) \<and>
    (\<forall>ev\<in>set events. \<exists>text. event_line U ev = ''- '' @ text @ ''\<newline>'') \<and>
    newlines (concat (map (event_line U) events)) =
      length events + sum_list (map (\<lambda>ev. sum_list (map newlines (operands U ev))) events) \<and>
    ((\<forall>ev\<in>set events. \<forall>s\<in>set (operands U ev). single_line s) \<longrightarrow>
       newlines (concat (map (event_line U) events)) = length events \<and>
       lines_of (concat (map (event_line U) events)) =
         map (\<lambda>ev. butlast (event_line U ev)) events) \<and>
    (\<exists>xs. body = Valid (JArray xs) \<and> length events = length xs \<and>
       (\<forall>i<length xs. unmarshal_Event (xs ! i) zero_Event = Inr (events ! i)))"
proof -
  have out: "getGithubActivity U Get Error username =
      ''Recent Activity for '' @ username @ '':\<newline>\<newline>'' @
      concat (map (event_line U) events)"
    using output_of_events[where U = U and Get = Get and username = username and Error = Error,
        OF assms(1-4)] assms(5) by simp
  from Unmarshal_nonempty_array[OF assms(4,5)] obtain xs where
    xs: "body = Valid (JArray xs)" "unmarshal_elements xs = Inr events" by blast
  from unmarshal_elements_nth[OF xs(2)] xs(1) have arr:
    "\<exists>xs. body = Valid (JArray xs) \<and> length events = length xs \<and>
       (\<forall>i<length xs. unmarshal_Event (xs ! i) zero_Event = Inr (events ! i))"
    by blast
  have shape: "\<forall>ev\<in>set events. \<exists>text. event_line U ev = ''- '' @ text @ ''\<newline>''"
    using event_line_shape by blast
  have cnt: "newlines (concat (map (event_line U) events)) =
      length events + sum_list (map (\<lambda>ev. sum_list (map newlines (operands U ev))) events)"
    by (rule newlines_lines)
  have one: "(\<forall>ev\<in>set events. \<forall>s\<in>set (operands U ev). single_line s) \<longrightarrow>
       newlines (concat (map (event_line U) events)) = length events \<and>
       lines_of (concat (map (event_line U) events)) =
         map (\<lambda>ev. butlast (event_line U ev)) events"
    using newlines_lines_single lines_of_lines by blast
  from out arr shape cnt one show ?thesis by blast
qed

theorem one_line_per_event_in_order_witness:
  "getGithubActivity sample_unicode
     (serve \<lparr>StatusCode = 200, Body = Inr (Valid (JArray
        [JObject [(''type'', JString ''WatchEvent''), (''repo'', JObject [(''name'', JString ''a/b'')]),
                  (''payload'', JObject [(''action'', JString ''started'')])],
         JObject [(''type'', JString ''ForkEvent''), (''repo'', JObject [(''name'', JString ''a/b'')]),
                  (''payload'', JObject [(''forkee'', JObject [(''full_name'', JString ''c/b'')])])]]))\<rparr>)
     error_text ''octocat'' =
   ''Recent Activity for octocat:\<newline>\<newline>- Started watching a/b\<newline>- Forked a/b to c/b\<newline>'' \<and>
   newlines ''- Started watching a/b\<newline>- Forked a/b to c/b\<newline>'' = 2 \<and>
   lines_of ''- Started watching a/b\<newline>- Forked a/b to c/b\<newline>'' =
     [''- Started watching a/b'', ''- Forked a/b to c/b'']"
proof -
  let ?body = "Valid (JArray
        [JObject [(''type'', JString ''WatchEvent''), (''repo'', JObject [(''name'', JString ''a/b'')]),
                  (''payload'', JObject [(''action'', JString ''started'')])],
         JObject [(''type'', JString ''ForkEvent''), (''repo'', JObject [(''name'', JString ''a/b'')]),
                  (''payload'', JObject [(''forkee'', JObject [(''full_name'', JString ''c/b'')])])]])"
  let ?resp = "\<lparr>StatusCode = 200, Body = Inr ?body\<rparr>"
  let ?e1 = "\<lparr>Type = ''WatchEvent'', Repo = \<lparr>Name = ''a/b''\<rparr>,
      Payload = zero_Payload\<lparr>Action := ''started''\<rparr>\<rparr>"
  let ?e2 = "\<lparr>Type = ''ForkEvent'', Repo = \<lparr>Name = ''a/b''\<rparr>,
      Payload = zero_Payload\<lparr>Forkee := \<lparr>FullName = ''c/b''\<rparr>\<rparr>\<rparr>"
  have dec: "Unmarshal ?body = Inr [?e1, ?e2]" by code_simp
  have l1: "event_line sample_unicode ?e1 = ''- Started watching a/b\<newline>''" by code_simp
  have l2: "event_line sample_unicode ?e2 = ''- Forked a/b to c/b\<newline>''" by code_simp
  have o1: "\<forall>s\<in>set (operands sample_unicode ?e1). single_line s" by code_simp
  have o2: "\<forall>s\<in>set (operands sample_unicode ?e2). single_line s" by code_simp
  have a: "serve ?resp (apiURL ''octocat'') = Inr ?resp" "StatusCode ?resp = 200"
    "Body ?resp = Inr ?body" "[?e1, ?e2] \<noteq> []"
    by simp_all
  note inst = one_line_per_event_in_order[where U = sample_unicode and Get = "serve ?resp"
      and username = "''octocat''" and Error = error_text, OF a(1-3) dec a(4)]
  from inst have out: "getGithubActivity sample_unicode (serve ?resp) error_text ''octocat'' =
      ''Recent Activity for '' @ ''octocat'' @ '':\<newline>\<newline>'' @
      concat (map (event_line sample_unicode) [?e1, ?e2])"
    by (rule conjunct1)
  from inst have "(\<forall>ev\<in>set [?e1, ?e2]. \<forall>s\<in>set (operands sample_unicode ev). single_line s) \<longrightarrow>
      newlines (concat (map (event_line sample_unicode) [?e1, ?e2])) = length [?e1, ?e2] \<and>
      lines_of (concat (map (event_line sample_unicode) [?e1, ?e2])) =
        map (\<lambda>ev. butlast (event_line sample_unicode ev)) [?e1, ?e2]"
    by blast
  with o1 o2 have n: "newlines (concat (map (event_line sample_unicode) [?e1, ?e2])) = 2"
    and ls: "lines_of (concat (map (event_line sample_unicode) [?e1, ?e2])) =
        map (\<lambda>ev. butlast (event_line sample_unicode ev)) [?e1, ?e2]"
    by simp_all
  have both: "concat (map (event_line sample_unicode) [?e1, ?e2]) =
      ''- Started watching a/b\<newline>- Forked a/b to c/b\<newline>''"
    using l1 l2 by simp
  from out n ls show ?thesis unfolding both by (simp add: l1 l2)
qed

text \<open>
  The claim as first stated promises N lines for every decoded list. A repository name
  may hold a newline: the one event below is written as two lines.
\<close>

theorem newline_in_repo_counterexample:
  "Unmarshal (Valid (JArray [JObject [(''type'', JString ''PublicEvent''),
      (''repo'', JObject [(''name'', JString ''a\<newline>b'')])]])) =
     Inr [\<lparr>Type = ''PublicEvent'', Repo = \<lparr>Name = ''a\<newline>b''\<rparr>, Payload = zero_Payload\<rparr>] \<and>
   getGithubActivity sample_unicode
     (serve \<lparr>StatusCode = 200, Body = Inr (Valid (JArray [JObject [(''type'', JString ''PublicEvent''),
        (''repo'', JObject [(''name'', JString ''a\<newline>b'')])]]))\<rparr>)
     error_text ''octocat'' =
   ''Recent Activity for octocat:\<newline>\<newline>- Made a\<newline>b public\<newline>'' \<and>
   newlines ''- Made a\<newline>b public\<newline>'' = 2"
  by code_simp

text \<open>
  Claim C9, as amended. Take an event object in which every member that names a field
  fits that field, except that the payload members naming none of the fields in a list of
  tags need only be absent, \<open>null\<close>, or empty in the JSON type of the field they name
  (the empty string for \<open>action\<close> and \<open>ref_type\<close>, the empty array for \<open>commits\<close>,
  the empty object for \<open>issue\<close>, \<open>forkee\<close> and \<open>pull_request\<close>). Then decoding
  succeeds and the event gives its one line. When the tags are those of the fields the
  event's category reads, the line is the one of the same event with all those other
  payload members left out, and it is the same for every payload that agrees on the
  fields the category reads: the other fields are not read.
\<close>

theorem irrelevant_fields_not_read:
  assumes "fits_Event (without_unread tags j)"
    and "unread_empty tags j"
  shows "\<exists>ev ev'.
      unmarshal_Event j zero_Event = Inr ev \<and>
      unmarshal_Event (without_unread tags j) zero_Event = Inr ev' \<and>
      (\<exists>text. event_line U ev = ''- '' @ text @ ''\<newline>'') \<and>
      (tags = reads (Type ev) \<longrightarrow>
         event_line U ev = event_line U ev' \<and>
         (\<forall>q. agree tags (Payload ev) q \<longrightarrow> event_line U (ev\<lparr>Payload := q\<rparr>) = event_line U ev))"
proof -
  from assms have "fits_Event j" by (rule fits_Event_from_parts)
  then have "\<not> isl (unmarshal_Event j zero_Event)" by (simp add: isl_unmarshal_Event)
  then obtain ev where ev: "unmarshal_Event j zero_Event = Inr ev"
    by (cases "unmarshal_Event j zero_Event") simp_all
  from assms(1) have "\<not> isl (unmarshal_Event (without_unread tags j) zero_Event)"
    by (simp add: isl_unmarshal_Event)
  then obtain ev' where ev': "unmarshal_Event (without_unread tags j) zero_Event = Inr ev'"
    by (cases "unmarshal_Event (without_unread tags j) zero_Event") simp_all
  from unmarshal_Event_view[OF ev ev'] have sv: "same_view tags ev ev'" .
  have same: "tags = reads (Type ev) \<longrightarrow> event_line U ev = event_line U ev'"
    using sv event_line_same_view by blast
  have any: "tags = reads (Type ev) \<longrightarrow>
      (\<forall>q. agree tags (Payload ev) q \<longrightarrow> event_line U (ev\<lparr>Payload := q\<rparr>) = event_line U ev)"
  proof (intro impI allI)
    fix q
    assume t: "tags = reads (Type ev)" and ag: "agree tags (Payload ev) q"
    then have "same_view (reads (Type ev)) ev (ev\<lparr>Payload := q\<rparr>)"
      by (simp add: same_view_def)
    from event_line_same_view[OF this] show "event_line U (ev\<lparr>Payload := q\<rparr>) = event_line U ev"
      by simp
  qed
  from ev ev' same any event_line_shape[of U ev] show ?thesis by blast
qed

theorem irrelevant_fields_not_read_witness:
  "fits_Event (without_unread (reads ''CreateEvent'')
     (JObject [(''id'', JString ''41''), (''type'', JString ''CreateEvent''),
        (''repo'', JObject [(''id'', JNumber 7 0), (''name'', JString ''a/b'')]),
        (''payload'', JObject [(''ref_type'', JString ''branch''), (''action'', JString []),
           (''issue'', JObject []), (''commits'', JNull)]),
        (''public'', JBool True)])) \<and>
   unread_empty (reads ''CreateEvent'')
     (JObject [(''id'', JString ''41''), (''type'', JString ''CreateEvent''),
        (''repo'', JObject [(''id'', JNumber 7 0), (''name'', JString ''a/b'')]),
        (''payload'', JObject [(''ref_type'', JString ''branch''), (''action'', JString []),
           (''issue'', JObject []), (''commits'', JNull)]),
        (''public'', JBool True)]) \<and>
   unmarshal_Event
     (JObject [(''id'', JString ''41''), (''type'', JString ''CreateEvent''),
        (''repo'', JObject [(''id'', JNumber 7 0), (''name'', JString ''a/b'')]),
        (''payload'', JObject [(''ref_type'', JString ''branch''), (''action'', JString []),
           (''issue'', JObject []), (''commits'', JNull)]),
        (''public'', JBool True)]) zero_Event =
     Inr \<lparr>Type = ''CreateEvent'', Repo = \<lparr>Name = ''a/b''\<rparr>,
          Payload = zero_Payload\<lparr>RefType := ''branch''\<rparr>\<rparr> \<and>
   unmarshal_Event
     (JObject [(''id'', JString ''41''), (''type'', JString ''CreateEvent''),
        (''repo'', JObject [(''id'', JNumber 7 0), (''name'', JString ''a/b'')]),
        (''payload'', JObject [(''ref_type'', JString ''branch'')]),
        (''public'', JBool True)]) zero_Event =
     Inr \<lparr>Type = ''CreateEvent'', Repo = \<lparr>Name = ''a/b''\<rparr>,
          Payload = zero_Payload\<lparr>RefType := ''branch''\<rparr>\<rparr> \<and>
   event_line sample_unicode \<lparr>Type = ''CreateEvent'', Repo = \<lparr>Name = ''a/b''\<rparr>,
          Payload = zero_Payload\<lparr>RefType := ''branch''\<rparr>\<rparr> =
     ''- Created a new branch in a/b\<newline>''"
proof -
  let ?j = "JObject [(''id'', JString ''41''), (''type'', JString ''CreateEvent''),
        (''repo'', JObject [(''id'', JNumber 7 0), (''name'', JString ''a/b'')]),
        (''payload'', JObject [(''ref_type'', JString ''branch''), (''action'', JString []),
           (''issue'', JObject []), (''commits'', JNull)]),
        (''public'', JBool True)]"
  let ?j' = "JObject [(''id'', JString ''41''), (''type'', JString ''CreateEvent''),
        (''repo'', JObject [(''id'', JNumber 7 0), (''name'', JString ''a/b'')]),
        (''payload'', JObject [(''ref_type'', JString ''branch'')]),
        (''public'', JBool True)]"
  let ?ev = "\<lparr>Type = ''CreateEvent'', Repo = \<lparr>Name = ''a/b''\<rparr>,
          Payload = zero_Payload\<lparr>RefType := ''branch''\<rparr>\<rparr>"
  have strip: "without_unread (reads ''CreateEvent'') ?j = ?j'" by code_simp
  have fit: "fits_Event ?j'" by code_simp
  have emp: "unread_empty (reads ''CreateEvent'') ?j" by code_simp
  have dec: "unmarshal_Event ?j zero_Event = Inr ?ev" by code_simp
  have dec': "unmarshal_Event ?j' zero_Event = Inr ?ev" by code_simp
  have line: "event_line sample_unicode ?ev = ''- Created a new branch in a/b\<newline>''" by code_simp
  from fit strip have fit': "fits_Event (without_unread (reads ''CreateEvent'') ?j)" by simp
  from irrelevant_fields_not_read[OF fit' emp, where U = sample_unicode] obtain ev ev' where
    e: "unmarshal_Event ?j zero_Event = Inr ev"
    and e': "unmarshal_Event (without_unread (reads ''CreateEvent'') ?j) zero_Event = Inr ev'"
    by blast
  from e dec have "ev = ?ev" by simp
  moreover from e' strip dec' have "ev' = ?ev" by simp
  ultimately have "unmarshal_Event ?j zero_Event = Inr ?ev \<and>
      unmarshal_Event ?j' zero_Event = Inr ?ev"
    using e e' strip by simp
  with fit' emp line show ?thesis by simp
qed


text \<open>
  The claim as first stated lets an irrelevant field be empty in any way. A push event
  does not read \<open>issue\<close>, but the decoder stores every member that names a field of the
  one \<open>Payload\<close> struct: the empty array is no object, so decoding fails for the whole
  response and the run writes the parse error message and no event line.
\<close>

theorem empty_of_other_type_counterexample:
  "empty_json (JArray []) \<and>
   \<not> names (reads ''PushEvent'') ''issue'' \<and>
   Unmarshal (Valid (JArray [JObject [(''type'', JString ''PushEvent''),
      (''repo'', JObject [(''name'', JString ''x/y'')]),
      (''payload'', JObject [(''commits'', JArray [JString ''c1'']), (''issue'', JArray [])])]])) =
     Inl (UnmarshalTypeError (JArray []) ''main.Issue'') \<and>
   getGithubActivity sample_unicode
     (serve \<lparr>StatusCode = 200, Body = Inr (Valid (JArray [JObject [(''type'', JString ''PushEvent''),
        (''repo'', JObject [(''name'', JString ''x/y'')]),
        (''payload'', JObject [(''commits'', JArray [JString ''c1'']),
           (''issue'', JArray [])])]]))\<rparr>)
     error_text ''octocat'' =
   ''Error: Failed to parse the response from the GitHub API. Reason: '' @
   error_text (UnmarshalTypeError (JArray []) ''main.Issue'') @ ''\<newline>''"
  by code_simp

text \<open>
  Claim C10. For every event object whose present fields fit their types and whose
  payload leaves \<open>commits\<close> out or carries it as \<open>null\<close>, decoding succeeds with an
  empty commits sequence, and when the event is a push event its line is
  \<open>- Pushed 0 commit(s) to {repo}\<close>.
\<close>

theorem push_without_commits:
  assumes "fits_Event j" and "omits_commits j"
  shows "\<exists>ev. unmarshal_Event j zero_Event = Inr ev \<and> Commits (Payload ev) = [] \<and>
    (Type ev = ''PushEvent'' \<longrightarrow>
       event_line U ev = ''- Pushed 0 commit(s) to '' @ Name (Repo ev) @ ''\<newline>'')"
proof -
  from assms(1) have "\<not> isl (unmarshal_Event j zero_Event)"
    by (simp add: isl_unmarshal_Event)
  then obtain ev where ev: "unmarshal_Event j zero_Event = Inr ev"
    by (cases "unmarshal_Event j zero_Event") simp_all
  have zero: "Commits (Payload zero_Event) = []"
    by (simp add: zero_Event_def zero_Payload_def)
  have nil: "Commits (Payload ev) = []"
  proof (cases j)
    case (JObject kvs)
    with ev have "members Event_member kvs zero_Event = Inr ev"
      by (simp add: unmarshal_Event_def unmarshal_struct_def)
    moreover from assms(2) JObject
    have "list_all (\<lambda>(k, v). field ''payload'' k \<longrightarrow> omits_commits_payload v) kvs"
      by (simp add: omits_commits_def)
    ultimately show ?thesis using zero by (rule Event_members_no_commits)
  qed (use ev zero in \<open>simp_all add: unmarshal_Event_def unmarshal_struct_def\<close>)
  then have "Type ev = ''PushEvent'' \<longrightarrow>
       event_line U ev = ''- Pushed 0 commit(s) to '' @ Name (Repo ev) @ ''\<newline>''"
    by (simp add: event_line_def fmt_d_0)
  with ev nil show ?thesis by blast
qed

theorem push_without_commits_witness:
  "fits_Event (JObject [(''type'', JString ''PushEvent''),
      (''repo'', JObject [(''name'', JString ''x/y'')]),
      (''payload'', JObject [(''ref'', JString ''refs/heads/main'')])]) \<and>
   omits_commits (JObject [(''type'', JString ''PushEvent''),
      (''repo'', JObject [(''name'', JString ''x/y'')]),
      (''payload'', JObject [(''ref'', JString ''refs/heads/main'')])]) \<and>
   unmarshal_Event (JObject [(''type'', JString ''PushEvent''),
      (''repo'', JObject [(''name'', JString ''x/y'')]),
      (''payload'', JObject [(''ref'', JString ''refs/heads/main'')])]) zero_Event =
     Inr \<lparr>Type = ''PushEvent'', Repo = \<lparr>Name = ''x/y''\<rparr>, Payload = zero_Payload\<rparr> \<and>
   event_line sample_unicode \<lparr>Type = ''PushEvent'', Repo = \<lparr>Name = ''x/y''\<rparr>, Payload = zero_Payload\<rparr> =
     ''- Pushed 0 commit(s) to x/y\<newline>''"
proof -
  let ?j = "JObject [(''type'', JString ''PushEvent''),
      (''repo'', JObject [(''name'', JString ''x/y'')]),
      (''payload'', JObject [(''ref'', JString ''refs/heads/main'')])]"
  let ?ev = "\<lparr>Type = ''PushEvent'', Repo = \<lparr>Name = ''x/y''\<rparr>, Payload = zero_Payload\<rparr>"
  have f: "fits_Event ?j" by code_simp
  have om: "omits_commits ?j" by code_simp
  have dec: "unmarshal_Event ?j zero_Event = Inr ?ev" by code_simp
  from push_without_commits[OF f om, where U = sample_unicode] dec
  have "event_line sample_unicode ?ev = ''- Pushed 0 commit(s) to '' @ Name (Repo ?ev) @ ''\<newline>''"
    by simp
  with f om dec show ?thesis by simp
qed

end
